theory Spec2Isabelle
  imports Main "HOL-Library.Word"
begin

section \<open>Characters and the constant \<open>string.printable\<close>\<close>

text \<open>
  \<^verbatim>\<open>item.py\<close> imports \<^verbatim>\<open>printable\<close> from Python's \<^verbatim>\<open>string\<close> module. The
  library builds it as digits, letters, punctuation and whitespace, in that order; the
  constant below is built the same way. A \<open>char\<close> of HOL is an 8-bit character, so a
  name is a list of code points below 256; every code point from 127 on is unprintable
  for Python as well.
\<close>

definition digits :: string where
  "digits = ''0123456789''"

definition ascii_lowercase :: string where
  "ascii_lowercase = ''abcdefghijklmnopqrstuvwxyz''"

definition ascii_uppercase :: string where
  "ascii_uppercase = ''ABCDEFGHIJKLMNOPQRSTUVWXYZ''"

definition ascii_letters :: string where
  "ascii_letters = ascii_lowercase @ ascii_uppercase"

definition punctuation :: string where
  "punctuation = CHR ''!'' # CHR 0x22 # ''#$%&'' @ CHR 0x27 # ''()*+,-./:;<=>?@['' @ CHR 0x5C
     # '']^_'' @ CHR 0x60 # ''{|}~''"

definition whitespace :: string where
  "whitespace = [CHR '' '', CHR 0x09, CHR 0x0A, CHR 0x0D, CHR 0x0B, CHR 0x0C]"

definition printable :: string where
  "printable = digits @ ascii_letters @ punctuation @ whitespace"

section \<open>Errors\<close>

text \<open>
  The source signals every failure by an exception: \<^verbatim>\<open>assert\<close> (AssertionError),
  \<^verbatim>\<open>raise Exception\<close>, \<^verbatim>\<open>raise TypeError\<close>, \<^verbatim>\<open>raise ValueError\<close>, and the
  exceptions of the library calls it makes. The model names them after the taxonomy of
  the specification:
  \<^item> \<open>InvalidName\<close>: the assertion "The value must contain just printable chars !" of
    \<^verbatim>\<open>BaseItem.__init__\<close>;
  \<^item> \<open>InvalidType\<close>: the assertions and exceptions "Invalid object type" and the
    TypeError of a library call on a value of the wrong type;
  \<^item> \<open>InvalidValue\<close>: the assertions "Invalid strings value" and "Invalid chars in
    strings value" of \<^verbatim>\<open>PropStrings.append\<close>;
  \<^item> \<open>ValueOutOfRange\<close>: the assertions "Invalid word value" and "Invalid byte value",
    and the ValueError of \<^verbatim>\<open>bytearray\<close> and \<^verbatim>\<open>bytes\<close> on an integer outside 0..255;
  \<^item> \<open>DuplicateName\<close>: the exceptions "property already exists" and "node already
    exists" of \<^verbatim>\<open>Node.append\<close>;
  \<^item> \<open>SelfReference\<close>: the exception "append the same node" of \<^verbatim>\<open>Node.append\<close>;
  \<^item> \<open>AttributeError\<close>: reading an attribute the object does not have;
  \<^item> \<open>EncodeError\<close>: \<^verbatim>\<open>struct.error\<close> of \<^verbatim>\<open>pack\<close> and UnicodeEncodeError of
    \<^verbatim>\<open>str.encode('ascii')\<close>.
\<close>

datatype error =
  InvalidName | InvalidType | InvalidValue | ValueOutOfRange | DuplicateName
  | SelfReference | AttributeError | EncodeError

section \<open>Data model\<close>

text \<open>
  A property value holds Python strings or Python integers. The attribute \<^verbatim>\<open>data\<close> is
  a \<^verbatim>\<open>list\<close> in \<^verbatim>\<open>PropStrings\<close> and \<^verbatim>\<open>PropWords\<close> and a \<^verbatim>\<open>bytearray\<close> in
  \<^verbatim>\<open>PropBytes\<close>. \<^verbatim>\<open>Node.merge\<close> assigns the \<^verbatim>\<open>data\<close> of one property to another
  without looking at the classes, so the payload type is kept apart from the class:
  every class can hold either container.
\<close>

datatype pyval = VStr string | VInt int

type_synonym byte = "8 word"

datatype payload = PList "pyval list" | PBytes "byte list"

text \<open>The items of a payload as Python sees them when indexing or iterating.\<close>

fun elems :: "payload \<Rightarrow> pyval list" where
  "elems (PList vs) = vs"
| "elems (PBytes bs) = map (\<lambda>b. VInt (uint b)) bs"

text \<open>
  The four property classes. \<^verbatim>\<open>Property\<close> has no attribute \<^verbatim>\<open>data\<close> of its own; it
  has one only after \<^verbatim>\<open>Node.merge\<close> has assigned it (the optional field). \<^verbatim>\<open>PropWords\<close>
  carries its \<^verbatim>\<open>word_size\<close>. The back-reference \<^verbatim>\<open>_parent\<close> is no part of these
  values: it is kept in the object store of the last sections.
\<close>

datatype property =
  Property (p_name: string) "payload option"
  | PropStrings (p_name: string) payload
  | PropWords (p_name: string) payload nat
  | PropBytes (p_name: string) payload

text \<open>Reading the attribute \<^verbatim>\<open>data\<close>: \<open>None\<close> where Python raises AttributeError.\<close>

fun prop_data :: "property \<Rightarrow> payload option" where
  "prop_data (Property n s) = s"
| "prop_data (PropStrings n d) = Some d"
| "prop_data (PropWords n d w) = Some d"
| "prop_data (PropBytes n d) = Some d"

text \<open>The assignment \<^verbatim>\<open>p.data = d\<close>.\<close>

fun set_data :: "property \<Rightarrow> payload \<Rightarrow> property" where
  "set_data (Property n s) d = Property n (Some d)"
| "set_data (PropStrings n _) d = PropStrings n d"
| "set_data (PropWords n _ w) d = PropWords n d w"
| "set_data (PropBytes n _) d = PropBytes n d"

text \<open>
  A node as a value: its name, its properties and its children, in order. The lists
  \<^verbatim>\<open>_props\<close> and \<^verbatim>\<open>_nodes\<close> hold properties and nodes only (\<^verbatim>\<open>Node.append\<close> admits
  nothing else).
\<close>

datatype node = Node (n_name: string) (props: "property list") (nodes: "node list")

text \<open>The Python values an operand of \<^verbatim>\<open>==\<close> can be.\<close>

datatype pyobj = OProp property | ONode node | OInt int | OStr string | ONone

datatype pytype = TProperty | TPropStrings | TPropWords | TPropBytes | TNode | TInt | TStr | TNoneType

fun type_of_prop :: "property \<Rightarrow> pytype" where
  "type_of_prop (Property _ _) = TProperty"
| "type_of_prop (PropStrings _ _) = TPropStrings"
| "type_of_prop (PropWords _ _ _) = TPropWords"
| "type_of_prop (PropBytes _ _) = TPropBytes"

fun type_of :: "pyobj \<Rightarrow> pytype" where
  "type_of (OProp p) = type_of_prop p"
| "type_of (ONode _) = TNode"
| "type_of (OInt _) = TInt"
| "type_of (OStr _) = TStr"
| "type_of ONone = TNoneType"

text \<open>\<open>proper_subclass t u\<close>: class \<open>t\<close> is declared as a subclass of class \<open>u\<close>.\<close>

fun proper_subclass :: "pytype \<Rightarrow> pytype \<Rightarrow> bool" where
  "proper_subclass TPropStrings TProperty = True"
| "proper_subclass TPropWords TProperty = True"
| "proper_subclass TPropBytes TProperty = True"
| "proper_subclass _ _ = False"

section \<open>Construction\<close>

text \<open>
  \<^verbatim>\<open>BaseItem.__init__\<close>: the name is a \<^verbatim>\<open>str\<close> by its type here; the assertion left
  is \<^verbatim>\<open>all(c in printable for c in name)\<close>. The optional \<^verbatim>\<open>parent\<close> is set in the
  object store.
\<close>

definition BaseItem_init :: "string \<Rightarrow> error + string" where
  "BaseItem_init name =
     (if list_all (\<lambda>c. c \<in> set printable) name then Inr name else Inl InvalidName)"

definition new_Property :: "string \<Rightarrow> error + property" where
  "new_Property name =
     (case BaseItem_init name of Inl e \<Rightarrow> Inl e | Inr n \<Rightarrow> Inr (Property n None))"

text \<open>\<^verbatim>\<open>self.data.append(value)\<close> on a list and on a bytearray.\<close>

fun data_append :: "payload \<Rightarrow> pyval \<Rightarrow> error + payload" where
  "data_append (PList vs) v = Inr (PList (vs @ [v]))"
| "data_append (PBytes bs) (VInt i) =
     (if 0 \<le> i \<and> i < 256 then Inr (PBytes (bs @ [word_of_int i])) else Inl ValueOutOfRange)"
| "data_append (PBytes bs) (VStr s) = Inl InvalidType"

fun PropStrings_append :: "payload \<Rightarrow> pyval \<Rightarrow> error + payload" where
  "PropStrings_append d (VInt i) = Inl InvalidType"
| "PropStrings_append d (VStr s) =
     (if \<not> length s > 0 then Inl InvalidValue
      else if \<not> list_all (\<lambda>c. c \<in> set printable \<or> c \<in> set [CHR 0x0D, CHR 0x0A]) s
        then Inl InvalidValue
      else data_append d (VStr s))"

fun PropWords_append :: "nat \<Rightarrow> payload \<Rightarrow> pyval \<Rightarrow> error + payload" where
  "PropWords_append word_size d (VStr s) = Inl InvalidType"
| "PropWords_append word_size d (VInt i) =
     (if \<not> (0 \<le> i \<and> i < 2 ^ word_size) then Inl ValueOutOfRange
      else data_append d (VInt i))"

text \<open>The loop \<^verbatim>\<open>for arg in args: self.append(arg)\<close> of the constructors.\<close>

fun append_all ::
  "(payload \<Rightarrow> pyval \<Rightarrow> error + payload) \<Rightarrow> payload \<Rightarrow> pyval list \<Rightarrow> error + payload" where
  "append_all app d [] = Inr d"
| "append_all app d (v # vs) =
     (case app d v of Inl e \<Rightarrow> Inl e | Inr d' \<Rightarrow> append_all app d' vs)"

definition new_PropStrings :: "string \<Rightarrow> pyval list \<Rightarrow> error + property" where
  "new_PropStrings name args =
     (case BaseItem_init name of Inl e \<Rightarrow> Inl e
      | Inr n \<Rightarrow>
         (case append_all PropStrings_append (PList []) args of Inl e \<Rightarrow> Inl e
          | Inr d \<Rightarrow> Inr (PropStrings n d)))"

text \<open>
  \<^verbatim>\<open>PropWords(name, *args, wsize=..., data=...)\<close>: \<open>wsize\<close> is 32 when the keyword is
  absent, and an absent \<^verbatim>\<open>data\<close> keyword is the empty list.
\<close>

definition new_PropWords :: "string \<Rightarrow> pyval list \<Rightarrow> nat \<Rightarrow> pyval list \<Rightarrow> error + property" where
  "new_PropWords name args wsize kwdata =
     (case BaseItem_init name of Inl e \<Rightarrow> Inl e
      | Inr n \<Rightarrow>
         (case append_all (PropWords_append wsize) (PList []) args of Inl e \<Rightarrow> Inl e
          | Inr d \<Rightarrow>
             (case append_all (PropWords_append wsize) d kwdata of Inl e \<Rightarrow> Inl e
              | Inr d' \<Rightarrow> Inr (PropWords n d' wsize))))"

text \<open>\<^verbatim>\<open>bytearray(data)\<close>: a copy of a bytearray, or the bytes of a list of integers.\<close>

fun to_byte :: "pyval \<Rightarrow> error + byte" where
  "to_byte (VStr s) = Inl InvalidType"
| "to_byte (VInt i) = (if 0 \<le> i \<and> i < 256 then Inr (word_of_int i) else Inl ValueOutOfRange)"

fun to_bytes :: "pyval list \<Rightarrow> error + byte list" where
  "to_bytes [] = Inr []"
| "to_bytes (v # vs) =
     (case to_byte v of Inl e \<Rightarrow> Inl e
      | Inr b \<Rightarrow> (case to_bytes vs of Inl e \<Rightarrow> Inl e | Inr bs \<Rightarrow> Inr (b # bs)))"

fun bytearray :: "payload \<Rightarrow> error + byte list" where
  "bytearray (PBytes bs) = Inr bs"
| "bytearray (PList vs) = to_bytes vs"

definition new_PropBytes :: "string \<Rightarrow> payload option \<Rightarrow> error + property" where
  "new_PropBytes name data =
     (case BaseItem_init name of Inl e \<Rightarrow> Inl e
      | Inr n \<Rightarrow>
         (case data of None \<Rightarrow> Inr (PropBytes n (PBytes []))
          | Some d \<Rightarrow>
             (case bytearray d of Inl e \<Rightarrow> Inl e | Inr bs \<Rightarrow> Inr (PropBytes n (PBytes bs)))))"

text \<open>
  \<^verbatim>\<open>Node(name, props=..., nodes=...)\<close>: the two lists are taken as they are (no check
  of their contents); an absent keyword is the empty list.
\<close>

definition new_Node :: "string \<Rightarrow> property list \<Rightarrow> node list \<Rightarrow> error + node" where
  "new_Node name kwprops kwnodes =
     (case BaseItem_init name of Inl e \<Rightarrow> Inl e | Inr n \<Rightarrow> Inr (Node n kwprops kwnodes))"

text \<open>The method \<^verbatim>\<open>copy\<close> of each class: it calls the constructor of the class again.\<close>

fun prop_copy :: "property \<Rightarrow> error + property" where
  "prop_copy (Property n s) = new_Property n"
| "prop_copy (PropStrings n d) = new_PropStrings n (elems d)"
| "prop_copy (PropWords n d w) = new_PropWords n (elems d) w []"
| "prop_copy (PropBytes n d) = new_PropBytes n (Some d)"

section \<open>Equality\<close>

text \<open>
  \<^verbatim>\<open>Property.__eq__\<close>: any instance of \<^verbatim>\<open>Property\<close>, also of a subclass, with the same
  name.
\<close>

fun Property_eq :: "property \<Rightarrow> pyobj \<Rightarrow> bool" where
  "Property_eq self (OProp p) = (if p_name self \<noteq> p_name p then False else True)"
| "Property_eq self _ = False"

text \<open>
  The loop \<^verbatim>\<open>for index in range(len(self)): if self.data[index] != prop[index]: return False\<close>,
  run once the two lengths are known to be equal.
\<close>

fun eq_loop :: "pyval list \<Rightarrow> pyval list \<Rightarrow> nat list \<Rightarrow> bool" where
  "eq_loop xs ys [] = True"
| "eq_loop xs ys (i # is) = (if xs ! i \<noteq> ys ! i then False else eq_loop xs ys is)"

text \<open>
  The body \<^verbatim>\<open>PropStrings.__eq__\<close>, \<^verbatim>\<open>PropWords.__eq__\<close> and \<^verbatim>\<open>PropBytes.__eq__\<close> share
  after their \<^verbatim>\<open>isinstance\<close> test.
\<close>

definition data_eq :: "string \<Rightarrow> payload \<Rightarrow> string \<Rightarrow> payload \<Rightarrow> bool" where
  "data_eq n d n' d' =
     (if n \<noteq> n' then False
      else if length (elems d) \<noteq> length (elems d') then False
      else eq_loop (elems d) (elems d') [0..<length (elems d)])"

fun PropStrings_eq :: "string \<Rightarrow> payload \<Rightarrow> pyobj \<Rightarrow> bool" where
  "PropStrings_eq n d (OProp (PropStrings n' d')) = data_eq n d n' d'"
| "PropStrings_eq n d _ = False"

fun PropWords_eq :: "string \<Rightarrow> payload \<Rightarrow> pyobj \<Rightarrow> bool" where
  "PropWords_eq n d (OProp (PropWords n' d' w')) = data_eq n d n' d'"
| "PropWords_eq n d _ = False"

fun PropBytes_eq :: "string \<Rightarrow> payload \<Rightarrow> pyobj \<Rightarrow> bool" where
  "PropBytes_eq n d (OProp (PropBytes n' d')) = data_eq n d n' d'"
| "PropBytes_eq n d _ = False"

text \<open>The method \<^verbatim>\<open>__eq__\<close> that the class of \<open>self\<close> provides.\<close>

fun prop_dunder_eq :: "property \<Rightarrow> pyobj \<Rightarrow> bool" where
  "prop_dunder_eq (Property n s) x = Property_eq (Property n s) x"
| "prop_dunder_eq (PropStrings n d) x = PropStrings_eq n d x"
| "prop_dunder_eq (PropWords n d w) x = PropWords_eq n d x"
| "prop_dunder_eq (PropBytes n d) x = PropBytes_eq n d x"

text \<open>
  The operator \<^verbatim>\<open>a == b\<close> on two properties. Python's rule for rich comparisons: when
  the operands have different types and the type of the right operand is a subclass of
  the type of the left one, the method of the right operand is called first, with the
  operands swapped; otherwise the method of the left operand is called. None of the
  methods here returns \<^verbatim>\<open>NotImplemented\<close>, so the first call decides.
\<close>

definition prop_op_eq :: "property \<Rightarrow> property \<Rightarrow> bool" where
  "prop_op_eq a b =
     (if proper_subclass (type_of_prop b) (type_of_prop a) then prop_dunder_eq b (OProp a)
      else prop_dunder_eq a (OProp b))"

text \<open>
  \<^verbatim>\<open>x in ys\<close> on a list: \<^verbatim>\<open>any(e is x or e == x for e in ys)\<close>, the item of the list
  on the left of \<^verbatim>\<open>==\<close>. Values have no identity; an identical object is an equal value,
  and the equalities here hold between a value and itself (\<open>prop_op_eq_refl\<close>,
  \<open>Node_eq_body_refl\<close>).
\<close>

definition contains :: "('a \<Rightarrow> 'a \<Rightarrow> bool) \<Rightarrow> 'a \<Rightarrow> 'a list \<Rightarrow> bool" where
  "contains eq x ys = list_ex (\<lambda>e. eq e x) ys"

text \<open>\<^verbatim>\<open>Node.__eq__\<close> after its \<^verbatim>\<open>isinstance\<close> test, on two nodes.\<close>

function Node_eq_body :: "node \<Rightarrow> node \<Rightarrow> bool" where
  "Node_eq_body (Node n ps cs) (Node n' ps' cs') =
     (if n \<noteq> n' then False
      else if length ps \<noteq> length ps' \<or> length cs \<noteq> length cs' then False
      else if list_ex (\<lambda>p. \<not> contains prop_op_eq p ps') ps then False
      else if list_ex (\<lambda>c. \<not> list_ex (\<lambda>e. Node_eq_body e c) cs') cs then False
      else True)"
  by pat_completeness auto
termination
proof (relation "measure (\<lambda>(a, b). size a + size b)", goal_cases)
  case 1
  show ?case by simp
next
  case (2 n ps cs n' ps' cs' c e)
  have "size c \<le> size_list size cs" and "size e \<le> size_list size cs'"
    using 2 by (auto intro: size_list_estimation')
  then show ?case by simp
qed

text \<open>\<^verbatim>\<open>Node.__eq__\<close>: a ValueError for an operand that is no \<^verbatim>\<open>Node\<close>.\<close>

fun Node_eq :: "node \<Rightarrow> pyobj \<Rightarrow> error + bool" where
  "Node_eq self (ONode node) = Inr (Node_eq_body self node)"
| "Node_eq self _ = Inl InvalidType"

text \<open>
  The method \<^verbatim>\<open>__eq__\<close> of any operand; \<open>None\<close> stands for \<^verbatim>\<open>NotImplemented\<close>,
  which the built-in types return for an operand of another type.
\<close>

fun dunder_eq :: "pyobj \<Rightarrow> pyobj \<Rightarrow> (error + bool) option" where
  "dunder_eq (OProp p) x = Some (Inr (prop_dunder_eq p x))"
| "dunder_eq (ONode n) x = Some (Node_eq n x)"
| "dunder_eq (OInt i) (OInt j) = Some (Inr (i = j))"
| "dunder_eq (OStr s) (OStr t) = Some (Inr (s = t))"
| "dunder_eq ONone ONone = Some (Inr True)"
| "dunder_eq _ _ = None"

text \<open>
  The operator \<^verbatim>\<open>a == b\<close> on any two values: the reflected method first when the right
  operand's type is a subclass of the left one's, the other method when the first
  returns \<^verbatim>\<open>NotImplemented\<close>, and the comparison of identities (false between two
  different values) when both do.
\<close>

definition py_eq :: "pyobj \<Rightarrow> pyobj \<Rightarrow> error + bool" where
  "py_eq a b =
     (if proper_subclass (type_of b) (type_of a) then
        (case dunder_eq b a of Some r \<Rightarrow> r
         | None \<Rightarrow> (case dunder_eq a b of Some r \<Rightarrow> r | None \<Rightarrow> Inr False))
      else
        (case dunder_eq a b of Some r \<Rightarrow> r
         | None \<Rightarrow> (case dunder_eq b a of Some r \<Rightarrow> r | None \<Rightarrow> Inr False)))"

text \<open>
  The values of a property as the specification counts them: a property of class
  \<^verbatim>\<open>Property\<close> has none, the other classes have the items of \<^verbatim>\<open>data\<close>.
\<close>

fun prop_values :: "property \<Rightarrow> pyval list" where
  "prop_values (Property n s) = []"
| "prop_values (PropStrings n d) = elems d"
| "prop_values (PropWords n d w) = elems d"
| "prop_values (PropBytes n d) = elems d"

section \<open>Binary emission\<close>

text \<open>
  Modelled from the spec: the three tag constants \<^verbatim>\<open>DTB_BEGIN_NODE\<close>, \<^verbatim>\<open>DTB_END_NODE\<close>
  and \<^verbatim>\<open>DTB_PROP\<close> are imported from the module \<^verbatim>\<open>head\<close>, which is not part of the
  sources at hand. The specification says of them that they are 32-bit values supplied
  by the header collaborator; the encoders take them as a parameter.
\<close>

record tags =
  DTB_BEGIN_NODE :: "32 word"
  DTB_END_NODE :: "32 word"
  DTB_PROP :: "32 word"

text \<open>
  \<^verbatim>\<open>pack('>I', v)\<close>: the four bytes of \<open>v\<close>, the most significant first;
  \<^verbatim>\<open>struct.error\<close> when \<open>v\<close> is not in \<open>0 .. 2^32 - 1\<close>.
\<close>

definition be32 :: "32 word \<Rightarrow> byte list" where
  "be32 w = [ucast (drop_bit 24 w), ucast (drop_bit 16 w), ucast (drop_bit 8 w), ucast w]"

definition pack_I :: "int \<Rightarrow> error + byte list" where
  "pack_I v = (if 0 \<le> v \<and> v < 2 ^ 32 then Inr (be32 (word_of_int v)) else Inl EncodeError)"

text \<open>\<^verbatim>\<open>pack('>III', tag, a, b)\<close> with a tag constant first.\<close>

definition pack_III :: "32 word \<Rightarrow> int \<Rightarrow> int \<Rightarrow> error + byte list" where
  "pack_III tag a b =
     (case pack_I a of Inl e \<Rightarrow> Inl e
      | Inr x \<Rightarrow> (case pack_I b of Inl e \<Rightarrow> Inl e | Inr y \<Rightarrow> Inr (be32 tag @ x @ y)))"

text \<open>\<^verbatim>\<open>pack('b', 0) * n\<close>: \<open>n\<close> zero bytes, none when \<open>n\<close> is not positive.\<close>

definition zeros :: "int \<Rightarrow> byte list" where
  "zeros n = replicate (nat n) 0"

text \<open>\<^verbatim>\<open>s.encode('ascii')\<close>: UnicodeEncodeError on a code point from 128 on.\<close>

definition encode_ascii :: "string \<Rightarrow> error + byte list" where
  "encode_ascii s =
     (if list_all (\<lambda>c. (of_char c :: nat) < 128) s then Inr (map of_char s)
      else Inl EncodeError)"

text \<open>
  \<^verbatim>\<open>strings.find(sub)\<close>: the lowest index at which \<open>sub\<close> occurs in \<open>strings\<close>,
  and \<open>-1\<close> when it does not occur.
\<close>

fun str_find :: "string \<Rightarrow> string \<Rightarrow> int" where
  "str_find [] sub = (if sub = [] then 0 else - 1)"
| "str_find (c # s) sub =
     (if take (length sub) (c # s) = sub then 0
      else (let r = str_find s sub in if r < 0 then - 1 else r + 1))"

text \<open>
  The four lines every \<^verbatim>\<open>to_dtb\<close> of a property starts or ends with:
  \<^verbatim>\<open>strpos = strings.find(self.name + '\0')\<close>, and when \<^verbatim>\<open>strpos < 0\<close>,
  \<^verbatim>\<open>strpos = len(strings); strings += self.name + '\0'\<close>. The result is
  \<open>(strpos, strings)\<close>.
\<close>

definition strings_lookup :: "string \<Rightarrow> string \<Rightarrow> int \<times> string" where
  "strings_lookup strings name =
     (let strpos = str_find strings (name @ [CHR 0x00])
      in if strpos < 0 then (int (length strings), strings @ name @ [CHR 0x00])
         else (strpos, strings))"

text \<open>\<^verbatim>\<open>Property.to_dtb\<close>: the header alone, and \<open>pos + 12\<close>.\<close>

definition Property_to_dtb ::
  "tags \<Rightarrow> string \<Rightarrow> string \<Rightarrow> int \<Rightarrow> int \<Rightarrow> error + (byte list \<times> string \<times> int)" where
  "Property_to_dtb T name strings pos version =
     (case strings_lookup strings name of
        (strpos, strings') \<Rightarrow>
          (case pack_III (DTB_PROP T) 0 strpos of Inl e \<Rightarrow> Inl e
           | Inr blob \<Rightarrow> Inr (blob, strings', pos + 12)))"

text \<open>
  The loop \<^verbatim>\<open>for chars in self.data: blob += chars.encode('ascii') + pack('b', 0)\<close>;
  an item that is no string has no method \<^verbatim>\<open>encode\<close>.
\<close>

fun strings_blob :: "pyval list \<Rightarrow> error + byte list" where
  "strings_blob [] = Inr []"
| "strings_blob (VInt i # vs) = Inl AttributeError"
| "strings_blob (VStr s # vs) =
     (case encode_ascii s of Inl e \<Rightarrow> Inl e
      | Inr b \<Rightarrow> (case strings_blob vs of Inl e \<Rightarrow> Inl e | Inr r \<Rightarrow> Inr (b @ [0] @ r)))"

definition PropStrings_to_dtb ::
  "tags \<Rightarrow> string \<Rightarrow> payload \<Rightarrow> string \<Rightarrow> int \<Rightarrow> int \<Rightarrow> error + (byte list \<times> string \<times> int)" where
  "PropStrings_to_dtb T name data strings pos version =
     (case strings_blob (elems data) of Inl e \<Rightarrow> Inl e
      | Inr blob0 \<Rightarrow>
         (let blob_len = int (length blob0);
              blob1 = (if version < 16 \<and> (pos + 12) mod 8 \<noteq> 0
                       then zeros (8 - ((pos + 12) mod 8)) @ blob0 else blob0);
              blob2 = (if blob_len mod 4 \<noteq> 0
                       then blob1 @ zeros (4 - (blob_len mod 4)) else blob1)
          in case strings_lookup strings name of
               (strpos, strings') \<Rightarrow>
                 (case pack_III (DTB_PROP T) blob_len strpos of Inl e \<Rightarrow> Inl e
                  | Inr header \<Rightarrow>
                     (let blob = header @ blob2
                      in Inr (blob, strings', pos + int (length blob))))))"

text \<open>The loop \<^verbatim>\<open>for word in self.data: blob += pack('>I', word)\<close>.\<close>

fun words_blob :: "pyval list \<Rightarrow> error + byte list" where
  "words_blob [] = Inr []"
| "words_blob (VStr s # vs) = Inl EncodeError"
| "words_blob (VInt i # vs) =
     (case pack_I i of Inl e \<Rightarrow> Inl e
      | Inr b \<Rightarrow> (case words_blob vs of Inl e \<Rightarrow> Inl e | Inr r \<Rightarrow> Inr (b @ r)))"

definition PropWords_to_dtb ::
  "tags \<Rightarrow> string \<Rightarrow> payload \<Rightarrow> string \<Rightarrow> int \<Rightarrow> int \<Rightarrow> error + (byte list \<times> string \<times> int)" where
  "PropWords_to_dtb T name data strings pos version =
     (case strings_lookup strings name of
        (strpos, strings') \<Rightarrow>
          (case pack_III (DTB_PROP T) (int (length (elems data)) * 4) strpos of Inl e \<Rightarrow> Inl e
           | Inr header \<Rightarrow>
              (case words_blob (elems data) of Inl e \<Rightarrow> Inl e
               | Inr ws \<Rightarrow>
                  (let blob = header @ ws
                   in Inr (blob, strings', pos + int (length blob))))))"

definition PropBytes_to_dtb ::
  "tags \<Rightarrow> string \<Rightarrow> payload \<Rightarrow> string \<Rightarrow> int \<Rightarrow> int \<Rightarrow> error + (byte list \<times> string \<times> int)" where
  "PropBytes_to_dtb T name data strings pos version =
     (case strings_lookup strings name of
        (strpos, strings') \<Rightarrow>
          (case pack_III (DTB_PROP T) (int (length (elems data))) strpos of Inl e \<Rightarrow> Inl e
           | Inr header \<Rightarrow>
              (case bytearray data of Inl e \<Rightarrow> Inl e
               | Inr bs \<Rightarrow>
                  (let blob0 = header @ bs;
                       blob = (if int (length blob0) mod 4 \<noteq> 0
                               then blob0 @ zeros (4 - (int (length blob0) mod 4)) else blob0)
                   in Inr (blob, strings', pos + int (length blob))))))"

text \<open>The call \<^verbatim>\<open>prop.to_dtb(strings, pos, version)\<close>: the method of the class.\<close>

fun prop_to_dtb ::
  "tags \<Rightarrow> property \<Rightarrow> string \<Rightarrow> int \<Rightarrow> int \<Rightarrow> error + (byte list \<times> string \<times> int)" where
  "prop_to_dtb T (Property n s) strings pos version = Property_to_dtb T n strings pos version"
| "prop_to_dtb T (PropStrings n d) strings pos version =
     PropStrings_to_dtb T n d strings pos version"
| "prop_to_dtb T (PropWords n d w) strings pos version =
     PropWords_to_dtb T n d strings pos version"
| "prop_to_dtb T (PropBytes n d) strings pos version =
     PropBytes_to_dtb T n d strings pos version"

text \<open>
  \<^verbatim>\<open>Node.to_dtb\<close>, its first lines: the begin-node record, with the name of a node other
  than the root, padded with zero bytes when its length is no multiple of 4.
\<close>

definition begin_node :: "tags \<Rightarrow> string \<Rightarrow> error + byte list" where
  "begin_node T name =
     (case (if name = ''/'' then Inr (be32 (DTB_BEGIN_NODE T) @ be32 0)
            else (case encode_ascii name of Inl e \<Rightarrow> Inl e
                  | Inr b \<Rightarrow> Inr (be32 (DTB_BEGIN_NODE T) @ b @ [0]))) of
        Inl e \<Rightarrow> Inl e
      | Inr blob \<Rightarrow>
          Inr (if int (length blob) mod 4 \<noteq> 0
               then blob @ zeros (4 - (int (length blob) mod 4)) else blob))"

text \<open>The loop \<^verbatim>\<open>for prop in self._props\<close> of \<^verbatim>\<open>Node.to_dtb\<close>.\<close>

fun props_to_dtb ::
  "tags \<Rightarrow> property list \<Rightarrow> byte list \<Rightarrow> string \<Rightarrow> int \<Rightarrow> int
   \<Rightarrow> error + (byte list \<times> string \<times> int)" where
  "props_to_dtb T [] blob strings pos version = Inr (blob, strings, pos)"
| "props_to_dtb T (p # ps) blob strings pos version =
     (case prop_to_dtb T p strings pos version of Inl e \<Rightarrow> Inl e
      | Inr (data, strings', pos') \<Rightarrow> props_to_dtb T ps (blob @ data) strings' pos' version)"

text \<open>
  \<^verbatim>\<open>Node.to_dtb\<close>, and its loop \<^verbatim>\<open>for node in self._nodes\<close>, which calls it again on
  every child.
\<close>

fun Node_to_dtb ::
  "tags \<Rightarrow> node \<Rightarrow> string \<Rightarrow> int \<Rightarrow> int \<Rightarrow> error + (byte list \<times> string \<times> int)"
and nodes_to_dtb ::
  "tags \<Rightarrow> node list \<Rightarrow> byte list \<Rightarrow> string \<Rightarrow> int \<Rightarrow> int
   \<Rightarrow> error + (byte list \<times> string \<times> int)" where
  "Node_to_dtb T (Node name ps cs) strings pos version =
     (case begin_node T name of Inl e \<Rightarrow> Inl e
      | Inr blob \<Rightarrow>
         (case props_to_dtb T ps blob strings (pos + int (length blob)) version of
            Inl e \<Rightarrow> Inl e
          | Inr (blob1, strings1, pos1) \<Rightarrow>
             (case nodes_to_dtb T cs blob1 strings1 pos1 version of Inl e \<Rightarrow> Inl e
              | Inr (blob2, strings2, pos2) \<Rightarrow>
                 Inr (blob2 @ be32 (DTB_END_NODE T), strings2, pos2 + 4))))"
| "nodes_to_dtb T [] blob strings pos version = Inr (blob, strings, pos)"
| "nodes_to_dtb T (c # cs) blob strings pos version =
     (case Node_to_dtb T c strings pos version of Inl e \<Rightarrow> Inl e
      | Inr (data, strings', pos') \<Rightarrow> nodes_to_dtb T cs (blob @ data) strings' pos' version)"

text \<open>
  The tag values of the flattened device tree format, for the examples: begin node 1,
  end node 2, property 3.
\<close>

definition fdt_tags :: tags where
  "fdt_tags = \<lparr>DTB_BEGIN_NODE = 1, DTB_END_NODE = 2, DTB_PROP = 3\<rparr>"

text \<open>
  The names of the properties in the order \<^verbatim>\<open>Node.to_dtb\<close> encodes them: the
  properties of the node, then its children, one after the other.
\<close>

fun walk_names :: "node \<Rightarrow> string list" where
  "walk_names (Node name ps cs) = map p_name ps @ concat (map walk_names cs)"

text \<open>
  The names a walk appends to the string table \<open>strings\<close>, in order: a name is
  appended when \<^verbatim>\<open>find\<close> does not find it followed by the zero character.
\<close>

fun inserted_names :: "string \<Rightarrow> string list \<Rightarrow> string list" where
  "inserted_names strings [] = []"
| "inserted_names strings (n # ns) =
     (if str_find strings (n @ [CHR 0x00]) < 0
      then n # inserted_names (strings @ n @ [CHR 0x00]) ns
      else inserted_names strings ns)"

text \<open>\<open>occurs_at s sub i\<close>: the string \<open>sub\<close> occurs in \<open>s\<close> at index \<open>i\<close>.\<close>

definition occurs_at :: "string \<Rightarrow> string \<Rightarrow> nat \<Rightarrow> bool" where
  "occurs_at s sub i \<longleftrightarrow> take (length sub) (drop i s) = sub"

text \<open>The names \<open>ns\<close> as entries of a string table: each followed by the zero character.\<close>

definition entries :: "string list \<Rightarrow> string" where
  "entries ns = concat (map (\<lambda>n. n @ [CHR 0x00]) ns)"

text \<open>
  An example tree: the root has the property \<open>ab\<close>, and each of its two children
  has a property \<open>b\<close>.
\<close>

definition shared_tail_tree :: node where
  "shared_tail_tree =
     Node ''/'' [Property ''ab'' None]
       [Node ''n1'' [Property ''b'' None] [], Node ''n2'' [Property ''b'' None] []]"

text \<open>
  The two paddings of \<^verbatim>\<open>PropStrings.to_dtb\<close> by themselves: the zero bytes put before
  the payload for a version below 16, and the zero bytes put after a payload of \<open>n\<close>
  bytes.
\<close>

definition pre_pad :: "int \<Rightarrow> int \<Rightarrow> byte list" where
  "pre_pad pos version =
     (if version < 16 \<and> (pos + 12) mod 8 \<noteq> 0 then zeros (8 - ((pos + 12) mod 8)) else [])"

definition trail_pad :: "nat \<Rightarrow> byte list" where
  "trail_pad n = (if int n mod 4 \<noteq> 0 then zeros (4 - (int n mod 4)) else [])"

text \<open>
  A second example tree: each of the two children of the root has a property \<open>reg\<close>.
\<close>

definition two_reg_tree :: node where
  "two_reg_tree =
     Node ''/'' []
       [Node ''a'' [PropWords ''reg'' (PList [VInt 1]) 32] [],
        Node ''b'' [PropWords ''reg'' (PList [VInt 2]) 32] []]"

section \<open>Node container: lookup, append and merge on node values\<close>

text \<open>\<^verbatim>\<open>Node.get_property\<close> and \<^verbatim>\<open>Node.get_subnode\<close>: the first item of that name.\<close>

fun get_property :: "property list \<Rightarrow> string \<Rightarrow> property option" where
  "get_property [] name = None"
| "get_property (p # ps) name = (if p_name p = name then Some p else get_property ps name)"

fun get_subnode :: "node list \<Rightarrow> string \<Rightarrow> node option" where
  "get_subnode [] name = None"
| "get_subnode (n # ns) name = (if n_name n = name then Some n else get_subnode ns name)"

text \<open>
  The local functions \<^verbatim>\<open>get_property_index\<close> and \<^verbatim>\<open>get_subnode_index\<close> of
  \<^verbatim>\<open>Node.merge\<close>: the first index of that name.
\<close>

fun get_property_index :: "property list \<Rightarrow> string \<Rightarrow> nat option" where
  "get_property_index [] name = None"
| "get_property_index (p # ps) name =
     (if p_name p = name then Some 0 else map_option Suc (get_property_index ps name))"

fun get_subnode_index :: "node list \<Rightarrow> string \<Rightarrow> nat option" where
  "get_subnode_index [] name = None"
| "get_subnode_index (n # ns) name =
     (if n_name n = name then Some 0 else map_option Suc (get_subnode_index ns name))"

text \<open>
  \<^verbatim>\<open>Node.append\<close> for an item that is a property, on the node as a value (the
  back-reference it sets is in the object store).
\<close>

definition append_property :: "node \<Rightarrow> property \<Rightarrow> error + node" where
  "append_property self item =
     (if get_property (props self) (p_name item) \<noteq> None then Inl DuplicateName
      else Inr (Node (n_name self) (props self @ [item]) (nodes self)))"

text \<open>
  One round of the loop \<^verbatim>\<open>for prop in node.props\<close> of \<^verbatim>\<open>Node.merge\<close>.
  \<^verbatim>\<open>copy(prop.data)\<close> is a new container with the same items: the same value.
\<close>

definition merge_prop :: "bool \<Rightarrow> node \<Rightarrow> property \<Rightarrow> error + node" where
  "merge_prop replace self prop =
     (case get_property_index (props self) (p_name prop) of
        None \<Rightarrow>
          (case prop_copy prop of Inl e \<Rightarrow> Inl e | Inr c \<Rightarrow> append_property self c)
      | Some index \<Rightarrow>
          if contains prop_op_eq prop (props self) then Inr self
          else if replace then
            (case prop_data prop of None \<Rightarrow> Inl AttributeError
             | Some d \<Rightarrow>
                Inr (Node (n_name self)
                      ((props self)[index := set_data (props self ! index) d]) (nodes self)))
          else Inr self)"

fun merge_props :: "bool \<Rightarrow> node \<Rightarrow> property list \<Rightarrow> error + node" where
  "merge_props replace self [] = Inr self"
| "merge_props replace self (prop # rest) =
     (case merge_prop replace self prop of Inl e \<Rightarrow> Inl e
      | Inr self' \<Rightarrow> merge_props replace self' rest)"

text \<open>\<^verbatim>\<open>deepcopy\<close> of a node as a value: the same value.\<close>

definition deepcopy_node :: "node \<Rightarrow> node" where
  "deepcopy_node n = n"

text \<open>
  \<^verbatim>\<open>Node.merge\<close>: the loop over the properties of \<open>node\<close>, then the loop
  \<^verbatim>\<open>for sub_node in node.nodes\<close> (\<open>merge_nodes\<close>, on the list \<^verbatim>\<open>self._nodes\<close>), which
  calls \<^verbatim>\<open>merge\<close> again on the child of the same name.
\<close>

fun merge :: "bool \<Rightarrow> node \<Rightarrow> node \<Rightarrow> error + node"
and merge_nodes :: "bool \<Rightarrow> node list \<Rightarrow> node list \<Rightarrow> error + node list" where
  "merge replace self (Node name ps cs) =
     (case merge_props replace self ps of Inl e \<Rightarrow> Inl e
      | Inr self1 \<Rightarrow>
         (case merge_nodes replace (nodes self1) cs of Inl e \<Rightarrow> Inl e
          | Inr ns \<Rightarrow> Inr (Node (n_name self1) (props self1) ns)))"
| "merge_nodes replace self_nodes [] = Inr self_nodes"
| "merge_nodes replace self_nodes (sub_node # rest) =
     (case get_subnode_index self_nodes (n_name sub_node) of
        None \<Rightarrow> merge_nodes replace (self_nodes @ [deepcopy_node sub_node]) rest
      | Some index \<Rightarrow>
          if contains Node_eq_body sub_node self_nodes then merge_nodes replace self_nodes rest
          else
            (case merge replace (self_nodes ! index) sub_node of Inl e \<Rightarrow> Inl e
             | Inr m \<Rightarrow> merge_nodes replace (self_nodes[index := m]) rest))"

text \<open>Two nodes for the examples: each holds a word list \<open>p\<close>, \<open>B\<close> also a string list \<open>q\<close> and a child.\<close>

definition node_A :: node where
  "node_A = Node ''soc'' [PropWords ''p'' (PList [VInt 1]) 32] []"

definition node_B :: node where
  "node_B = Node ''soc''
     [PropWords ''p'' (PList [VInt 2]) 32, PropStrings ''q'' (PList [VStr ''ok''])]
     [Node ''bus'' [Property ''ranges'' None] []]"

text \<open>
  Two nodes for an example of a call that ends with an exception: \<open>A\<close> holds the
  word lists \<open>x\<close> and \<open>p\<close>, and \<open>B\<close> a property \<open>x\<close> without value, then a word
  list \<open>p\<close>.
\<close>

definition node_Ax :: node where
  "node_Ax = Node ''soc''
     [PropWords ''x'' (PList [VInt 1]) 32, PropWords ''p'' (PList [VInt 1]) 32] []"

definition node_Bx :: node where
  "node_Bx = Node ''soc'' [Property ''x'' None, PropWords ''p'' (PList [VInt 2]) 32] []"

section \<open>The object store: identity and back-references\<close>

text \<open>
  \<^verbatim>\<open>_parent\<close> is a reference to an object, and \<^verbatim>\<open>append\<close>, \<^verbatim>\<open>merge\<close> and
  \<^verbatim>\<open>deepcopy\<close> differ in which object it refers to. Here objects live in a store and
  are referred to by their address. The store has two parts, one for the properties and
  one for the nodes: \<^verbatim>\<open>set_parent\<close> asserts that a parent is a \<^verbatim>\<open>Node\<close>, and
  \<^verbatim>\<open>Node.append\<close> puts properties into \<^verbatim>\<open>_props\<close> and nodes into \<^verbatim>\<open>_nodes\<close>, so a
  parent and an item of \<^verbatim>\<open>_nodes\<close> are addresses of nodes and an item of \<^verbatim>\<open>_props\<close>
  is the address of a property. The lists \<^verbatim>\<open>_props\<close> and \<^verbatim>\<open>_nodes\<close> belong to one node
  each. An address is a reference to an existing object (\<open>wf_heap\<close>): Python has no
  other references.
\<close>

type_synonym addr = nat

datatype pobj = PObj (pparent: "addr option") (pval: property)

datatype nobj =
  NObj (nname: string) (nparent: "addr option") (nprops: "addr list") (nnodes: "addr list")

datatype heap = Heap (pstore: "pobj list") (nstore: "nobj list")

datatype item = PropRef addr | NodeRef addr

definition wf_heap :: "heap \<Rightarrow> bool" where
  "wf_heap h \<longleftrightarrow>
     (\<forall>n \<in> set (nstore h).
        (case nparent n of None \<Rightarrow> True | Some q \<Rightarrow> q < length (nstore h))
        \<and> (\<forall>c \<in> set (nnodes n). c < length (nstore h))
        \<and> (\<forall>p \<in> set (nprops n). p < length (pstore h)))
     \<and> (\<forall>p \<in> set (pstore h).
        case pparent p of None \<Rightarrow> True | Some q \<Rightarrow> q < length (nstore h))"

definition upd_node :: "heap \<Rightarrow> addr \<Rightarrow> (nobj \<Rightarrow> nobj) \<Rightarrow> heap" where
  "upd_node h a f = Heap (pstore h) ((nstore h)[a := f (nstore h ! a)])"

definition upd_prop :: "heap \<Rightarrow> addr \<Rightarrow> (pobj \<Rightarrow> pobj) \<Rightarrow> heap" where
  "upd_prop h a f = Heap ((pstore h)[a := f (pstore h ! a)]) (nstore h)"

text \<open>The attributes \<^verbatim>\<open>name\<close> and \<^verbatim>\<open>parent\<close> of an item.\<close>

fun item_name :: "heap \<Rightarrow> item \<Rightarrow> string" where
  "item_name h (PropRef p) = p_name (pval (pstore h ! p))"
| "item_name h (NodeRef n) = nname (nstore h ! n)"

fun item_parent :: "heap \<Rightarrow> item \<Rightarrow> addr option" where
  "item_parent h (PropRef p) = pparent (pstore h ! p)"
| "item_parent h (NodeRef n) = nparent (nstore h ! n)"

text \<open>\<^verbatim>\<open>BaseItem.set_parent\<close>; the value is a node by its type.\<close>

fun set_parent :: "heap \<Rightarrow> item \<Rightarrow> addr \<Rightarrow> heap" where
  "set_parent h (PropRef p) v = upd_prop h p (\<lambda>x. PObj (Some v) (pval x))"
| "set_parent h (NodeRef n) v = upd_node h n (\<lambda>x. NObj (nname x) (Some v) (nprops x) (nnodes x))"

text \<open>
  \<^verbatim>\<open>BaseItem.path\<close>. The loop \<^verbatim>\<open>while node is not None\<close> follows the parents and
  need not end (two nodes can be each other's parent), so it is a partial function:
  \<open>None\<close> when the loop does not end. (There is no result either for an address
  outside the store.)
\<close>

partial_function (option) path_loop :: "heap \<Rightarrow> addr option \<Rightarrow> string list \<Rightarrow> string list option" where
  "path_loop h node path =
     (case node of None \<Rightarrow> Some path
      | Some a \<Rightarrow>
          if a < length (nstore h) then
            (if nname (nstore h ! a) = ''/'' then Some path
             else path_loop h (nparent (nstore h ! a)) (path @ [nname (nstore h ! a)]))
          else None)"

declare path_loop.simps [code]

text \<open>\<^verbatim>\<open>sep.join(xs)\<close>.\<close>

fun join :: "string \<Rightarrow> string list \<Rightarrow> string" where
  "join sep [] = []"
| "join sep [x] = x"
| "join sep (x # y # ys) = x @ sep @ join sep (y # ys)"

definition BaseItem_path :: "heap \<Rightarrow> item \<Rightarrow> string option" where
  "BaseItem_path h item =
     (case path_loop h (item_parent h item) [] of None \<Rightarrow> None
      | Some path \<Rightarrow> Some (''/'' @ join ''/'' (rev path)))"

text \<open>
  The chain of parents the loop of \<^verbatim>\<open>path\<close> walks, as a list of addresses: from the
  parent \<open>par\<close> upwards through the nodes \<open>qs\<close>, none of them named \<open>/\<close>, up to a node
  without parent or below a node named \<open>/\<close>.
\<close>

fun is_chain :: "heap \<Rightarrow> addr option \<Rightarrow> addr list \<Rightarrow> bool" where
  "is_chain h par [] =
     (case par of None \<Rightarrow> True
      | Some q \<Rightarrow> q < length (nstore h) \<and> nname (nstore h ! q) = ''/'')"
| "is_chain h par (q # qs) =
     (par = Some q \<and> q < length (nstore h) \<and> nname (nstore h ! q) \<noteq> ''/''
      \<and> is_chain h (nparent (nstore h ! q)) qs)"

text \<open>\<^verbatim>\<open>Node.get_property\<close> and \<^verbatim>\<open>Node.get_subnode\<close> on the store.\<close>

fun find_prop :: "heap \<Rightarrow> addr list \<Rightarrow> string \<Rightarrow> addr option" where
  "find_prop h [] name = None"
| "find_prop h (p # ps) name =
     (if p_name (pval (pstore h ! p)) = name then Some p else find_prop h ps name)"

fun find_node :: "heap \<Rightarrow> addr list \<Rightarrow> string \<Rightarrow> addr option" where
  "find_node h [] name = None"
| "find_node h (n # ns) name =
     (if nname (nstore h ! n) = name then Some n else find_node h ns name)"

definition Node_get_property :: "heap \<Rightarrow> addr \<Rightarrow> string \<Rightarrow> addr option" where
  "Node_get_property h self name = find_prop h (nprops (nstore h ! self)) name"

definition Node_get_subnode :: "heap \<Rightarrow> addr \<Rightarrow> string \<Rightarrow> addr option" where
  "Node_get_subnode h self name = find_node h (nnodes (nstore h ! self)) name"

text \<open>
  \<^verbatim>\<open>Node.append\<close>. The result is the store when the call ends and the exception it
  ended with, if any. (The last branch, TypeError for an item that is neither a
  property nor a node, is excluded by the type of \<open>item\<close>.)
\<close>

fun Node_append :: "heap \<Rightarrow> addr \<Rightarrow> item \<Rightarrow> heap \<times> error option" where
  "Node_append h self (PropRef p) =
     (if Node_get_property h self (item_name h (PropRef p)) \<noteq> None then (h, Some DuplicateName)
      else
        (let h1 = set_parent h (PropRef p) self
         in (upd_node h1 self (\<lambda>x. NObj (nname x) (nparent x) (nprops x @ [p]) (nnodes x)),
             None)))"
| "Node_append h self (NodeRef n) =
     (if Node_get_subnode h self (item_name h (NodeRef n)) \<noteq> None then (h, Some DuplicateName)
      else if n = self then (h, Some SelfReference)
      else
        (let h1 = set_parent h (NodeRef n) self
         in (upd_node h1 self (\<lambda>x. NObj (nname x) (nparent x) (nprops x) (nnodes x @ [n])),
             None)))"

text \<open>
  \<^verbatim>\<open>deepcopy(x)\<close> of a node. The library copies \<open>x\<close> and every object it reaches
  through the attributes (\<^verbatim>\<open>_parent\<close>, the items of \<^verbatim>\<open>_props\<close> and their
  \<^verbatim>\<open>_parent\<close>, the items of \<^verbatim>\<open>_nodes\<close>), each object once (its memo), and makes every
  reference in a copy refer to the copy of its target; the objects copied are not
  changed. Here the nodes reached are collected first (\<open>reachable\<close>: as many rounds as
  the store has nodes), then the copies are put at the end of the store, the copy of
  \<open>x\<close> first. Which address a new object gets cannot be observed in Python.
\<close>

fun opt_list :: "'a option \<Rightarrow> 'a list" where
  "opt_list None = []"
| "opt_list (Some x) = [x]"

definition node_refs :: "heap \<Rightarrow> addr \<Rightarrow> addr list" where
  "node_refs h a =
     opt_list (nparent (nstore h ! a))
     @ concat (map (\<lambda>p. opt_list (pparent (pstore h ! p))) (nprops (nstore h ! a)))
     @ nnodes (nstore h ! a)"

fun add_refs :: "addr list \<Rightarrow> addr list \<Rightarrow> addr list" where
  "add_refs acc [] = acc"
| "add_refs acc (a # as) = add_refs (if a \<in> set acc then acc else acc @ [a]) as"

definition reach_step :: "heap \<Rightarrow> addr list \<Rightarrow> addr list" where
  "reach_step h acc = add_refs acc (concat (map (node_refs h) acc))"

definition reachable :: "heap \<Rightarrow> addr \<Rightarrow> addr list" where
  "reachable h x = ((reach_step h) ^^ length (nstore h)) [x]"

fun index_of :: "addr list \<Rightarrow> addr \<Rightarrow> nat" where
  "index_of [] a = 0"
| "index_of (b # bs) a = (if a = b then 0 else Suc (index_of bs a))"

definition deepcopy :: "heap \<Rightarrow> addr \<Rightarrow> heap \<times> addr" where
  "deepcopy h x =
     (let ns = reachable h x;
          ps = remdups (concat (map (\<lambda>a. nprops (nstore h ! a)) ns));
          rn = (\<lambda>a. length (nstore h) + index_of ns a);
          rp = (\<lambda>p. length (pstore h) + index_of ps p)
      in (Heap
            (pstore h
             @ map (\<lambda>p. PObj (map_option rn (pparent (pstore h ! p))) (pval (pstore h ! p))) ps)
            (nstore h
             @ map (\<lambda>a. NObj (nname (nstore h ! a)) (map_option rn (nparent (nstore h ! a)))
                          (map rp (nprops (nstore h ! a))) (map rn (nnodes (nstore h ! a)))) ns),
          length (nstore h)))"

text \<open>
  The two ways \<^verbatim>\<open>Node.merge\<close> attaches what \<open>self\<close> lacks. For a property:
  \<^verbatim>\<open>self.append(prop.copy())\<close>; the copy is a new object made by the constructor,
  without parent, and \<^verbatim>\<open>append\<close> sets its parent. For a child node:
  \<^verbatim>\<open>self._nodes.append(deepcopy(sub_node))\<close>; the list is extended and nothing else.
\<close>

definition alloc_prop :: "heap \<Rightarrow> property \<Rightarrow> heap \<times> addr" where
  "alloc_prop h v = (Heap (pstore h @ [PObj None v]) (nstore h), length (pstore h))"

definition attach_prop_copy :: "heap \<Rightarrow> addr \<Rightarrow> addr \<Rightarrow> heap \<times> error option" where
  "attach_prop_copy h self prop =
     (case prop_copy (pval (pstore h ! prop)) of Inl e \<Rightarrow> (h, Some e)
      | Inr c \<Rightarrow> (case alloc_prop h c of (h1, a) \<Rightarrow> Node_append h1 self (PropRef a)))"

definition attach_node_copy :: "heap \<Rightarrow> addr \<Rightarrow> addr \<Rightarrow> heap" where
  "attach_node_copy h self sub_node =
     (case deepcopy h sub_node of
        (h1, c) \<Rightarrow> upd_node h1 self (\<lambda>x. NObj (nname x) (nparent x) (nprops x) (nnodes x @ [c])))"

text \<open>The index functions of \<^verbatim>\<open>merge\<close> on the store.\<close>

fun find_prop_index :: "heap \<Rightarrow> addr list \<Rightarrow> string \<Rightarrow> nat option" where
  "find_prop_index h [] name = None"
| "find_prop_index h (p # ps) name =
     (if p_name (pval (pstore h ! p)) = name then Some 0
      else map_option Suc (find_prop_index h ps name))"

fun find_node_index :: "heap \<Rightarrow> addr list \<Rightarrow> string \<Rightarrow> nat option" where
  "find_node_index h [] name = None"
| "find_node_index h (n # ns) name =
     (if nname (nstore h ! n) = name then Some 0
      else map_option Suc (find_node_index h ns name))"

text \<open>\<^verbatim>\<open>prop in self._props\<close>: an item that is the same object, or an equal one.\<close>

definition prop_in :: "heap \<Rightarrow> addr \<Rightarrow> addr list \<Rightarrow> bool" where
  "prop_in h p ps =
     list_ex (\<lambda>e. e = p \<or> prop_op_eq (pval (pstore h ! e)) (pval (pstore h ! p))) ps"

text \<open>
  \<^verbatim>\<open>Node.__eq__\<close> on two nodes of the store, and \<^verbatim>\<open>n in ns\<close> for nodes. The method
  calls itself on the children; on a store where a node is below itself the calls
  never end, so the depth of the calls is bounded by \<open>fuel\<close>, and \<open>None\<close> is the
  result when the bound is reached.
\<close>

fun any_opt :: "('a \<Rightarrow> bool option) \<Rightarrow> 'a list \<Rightarrow> bool option" where
  "any_opt f [] = Some False"
| "any_opt f (x # xs) =
     (case f x of None \<Rightarrow> None | Some True \<Rightarrow> Some True | Some False \<Rightarrow> any_opt f xs)"

fun all_opt :: "('a \<Rightarrow> bool option) \<Rightarrow> 'a list \<Rightarrow> bool option" where
  "all_opt f [] = Some True"
| "all_opt f (x # xs) =
     (case f x of None \<Rightarrow> None | Some False \<Rightarrow> Some False | Some True \<Rightarrow> all_opt f xs)"

fun Node_eq_h :: "nat \<Rightarrow> heap \<Rightarrow> addr \<Rightarrow> addr \<Rightarrow> bool option" where
  "Node_eq_h 0 h self node = None"
| "Node_eq_h (Suc fuel) h self node =
     (if nname (nstore h ! self) \<noteq> nname (nstore h ! node) then Some False
      else if length (nprops (nstore h ! self)) \<noteq> length (nprops (nstore h ! node))
            \<or> length (nnodes (nstore h ! self)) \<noteq> length (nnodes (nstore h ! node))
        then Some False
      else if list_ex (\<lambda>p. \<not> prop_in h p (nprops (nstore h ! node))) (nprops (nstore h ! self))
        then Some False
      else all_opt
             (\<lambda>n. any_opt (\<lambda>e. if e = n then Some True else Node_eq_h fuel h e n)
                     (nnodes (nstore h ! node)))
             (nnodes (nstore h ! self)))"

definition node_in :: "nat \<Rightarrow> heap \<Rightarrow> addr \<Rightarrow> addr list \<Rightarrow> bool option" where
  "node_in fuel h n ns = any_opt (\<lambda>e. if e = n then Some True else Node_eq_h fuel h e n) ns"

text \<open>
  \<^verbatim>\<open>Node.merge\<close> on the store. One round of the loop over \<^verbatim>\<open>node.props\<close>
  (\<open>Node_merge_prop\<close>), the loop (on the list as it is when the loop starts: no round
  changes the list of another node, and when \<open>node\<close> is \<open>self\<close> every property is
  found in \<open>self\<close> and nothing is changed), and the method with its loop over
  \<^verbatim>\<open>node.nodes\<close>, which reads the list anew in every round (a call of \<^verbatim>\<open>merge\<close> in a
  round can extend it). The result is \<open>None\<close> when \<open>fuel\<close> rounds and calls were not
  enough, and else the store at the end and the exception, if any.
\<close>

definition Node_merge_prop :: "bool \<Rightarrow> heap \<Rightarrow> addr \<Rightarrow> addr \<Rightarrow> heap \<times> error option" where
  "Node_merge_prop replace h self prop =
     (case find_prop_index h (nprops (nstore h ! self)) (p_name (pval (pstore h ! prop))) of
        None \<Rightarrow> attach_prop_copy h self prop
      | Some index \<Rightarrow>
          if prop_in h prop (nprops (nstore h ! self)) then (h, None)
          else if replace then
            (case prop_data (pval (pstore h ! prop)) of None \<Rightarrow> (h, Some AttributeError)
             | Some d \<Rightarrow>
                (upd_prop h (nprops (nstore h ! self) ! index)
                   (\<lambda>x. PObj (pparent x) (set_data (pval x) d)), None))
          else (h, None))"

fun Node_merge_props :: "bool \<Rightarrow> heap \<Rightarrow> addr \<Rightarrow> addr list \<Rightarrow> heap \<times> error option" where
  "Node_merge_props replace h self [] = (h, None)"
| "Node_merge_props replace h self (prop # rest) =
     (case Node_merge_prop replace h self prop of
        (h1, Some e) \<Rightarrow> (h1, Some e)
      | (h1, None) \<Rightarrow> Node_merge_props replace h1 self rest)"

fun Node_merge :: "nat \<Rightarrow> bool \<Rightarrow> heap \<Rightarrow> addr \<Rightarrow> addr \<Rightarrow> (heap \<times> error option) option"
and Node_merge_nodes ::
  "nat \<Rightarrow> bool \<Rightarrow> heap \<Rightarrow> addr \<Rightarrow> addr \<Rightarrow> nat \<Rightarrow> (heap \<times> error option) option" where
  "Node_merge 0 replace h self node = None"
| "Node_merge (Suc fuel) replace h self node =
     (case Node_merge_props replace h self (nprops (nstore h ! node)) of
        (h1, Some e) \<Rightarrow> Some (h1, Some e)
      | (h1, None) \<Rightarrow> Node_merge_nodes fuel replace h1 self node 0)"
| "Node_merge_nodes 0 replace h self node i = None"
| "Node_merge_nodes (Suc fuel) replace h self node i =
     (if i < length (nnodes (nstore h ! node)) then
        (let sub_node = nnodes (nstore h ! node) ! i
         in case find_node_index h (nnodes (nstore h ! self)) (nname (nstore h ! sub_node)) of
              None \<Rightarrow>
                Node_merge_nodes fuel replace (attach_node_copy h self sub_node) self node (Suc i)
            | Some index \<Rightarrow>
                (case node_in fuel h sub_node (nnodes (nstore h ! self)) of
                   None \<Rightarrow> None
                 | Some True \<Rightarrow> Node_merge_nodes fuel replace h self node (Suc i)
                 | Some False \<Rightarrow>
                    (case Node_merge fuel replace h (nnodes (nstore h ! self) ! index) sub_node of
                       None \<Rightarrow> None
                     | Some (h1, Some e) \<Rightarrow> Some (h1, Some e)
                     | Some (h1, None) \<Rightarrow> Node_merge_nodes fuel replace h1 self node (Suc i))))
      else Some (h, None))"

text \<open>\<open>ancestor h a q\<close>: the node \<open>q\<close> is the parent of the node \<open>a\<close>, or the parent of its parent, and so on.\<close>

inductive ancestor :: "heap \<Rightarrow> addr \<Rightarrow> addr \<Rightarrow> bool" for h :: heap where
  parent: "a < length (nstore h) \<Longrightarrow> nparent (nstore h ! a) = Some q \<Longrightarrow> ancestor h a q"
| step: "ancestor h a p \<Longrightarrow> p < length (nstore h) \<Longrightarrow> nparent (nstore h ! p) = Some q
         \<Longrightarrow> ancestor h a q"


text \<open>
  A store for the examples of \<^verbatim>\<open>path\<close>: the root \<open>/\<close> (node 0), \<open>soc\<close> below it
  (node 1), \<open>bus\<close> below \<open>soc\<close> (node 2) and \<open>leaf\<close> below \<open>bus\<close> (node 3), which
  holds the property \<open>reg\<close> (property 0).
\<close>

definition path_heap :: heap where
  "path_heap =
     Heap [PObj (Some 3) (PropWords ''reg'' (PList [VInt 1]) 32)]
       [NObj ''/'' None [] [1], NObj ''soc'' (Some 0) [] [2], NObj ''bus'' (Some 1) [] [3],
        NObj ''leaf'' (Some 2) [0] []]"

text \<open>
  A store for the examples of \<^verbatim>\<open>merge\<close>, with two trees. The first: the root \<open>/\<close>
  (node 0) and \<open>soc\<close> below it (node 1), which holds \<open>p = <1>\<close> (property 0). The
  second: the root \<open>/\<close> (node 2) and \<open>overlay\<close> below it (node 3), which holds
  \<open>q = "ok"\<close> (property 1) and has the child \<open>bus\<close> (node 4), which holds the empty
  property \<open>ranges\<close> (property 2).
\<close>

definition merge_heap :: heap where
  "merge_heap =
     Heap [PObj (Some 1) (PropWords ''p'' (PList [VInt 1]) 32),
           PObj (Some 3) (PropStrings ''q'' (PList [VStr ''ok''])),
           PObj (Some 4) (Property ''ranges'' None)]
       [NObj ''/'' None [] [1], NObj ''soc'' (Some 0) [0] [],
        NObj ''/'' None [] [3], NObj ''overlay'' (Some 2) [1] [4],
        NObj ''bus'' (Some 3) [2] []]"

text \<open>
  The two nodes \<open>node_Ax\<close> (node 0, with the properties 0 and 1) and \<open>node_Bx\<close>
  (node 1, with the properties 2 and 3) in a store.
\<close>

definition raise_heap :: heap where
  "raise_heap =
     Heap [PObj (Some 0) (PropWords ''x'' (PList [VInt 1]) 32),
           PObj (Some 0) (PropWords ''p'' (PList [VInt 1]) 32),
           PObj (Some 1) (Property ''x'' None),
           PObj (Some 1) (PropWords ''p'' (PList [VInt 2]) 32)]
       [NObj ''soc'' None [0, 1] [], NObj ''soc'' None [2, 3] []]"


text \<open>
  The parts of \<open>deepcopy\<close> by name: the nodes and properties it copies, the address
  of the copy of each, and the copy of a node and of a property.
\<close>

definition copy_node :: "heap \<Rightarrow> (addr \<Rightarrow> addr) \<Rightarrow> (addr \<Rightarrow> addr) \<Rightarrow> addr \<Rightarrow> nobj" where
  "copy_node h rn rp =
     (\<lambda>a. NObj (nname (nstore h ! a)) (map_option rn (nparent (nstore h ! a)))
       (map rp (nprops (nstore h ! a))) (map rn (nnodes (nstore h ! a))))"

definition copy_prop :: "heap \<Rightarrow> (addr \<Rightarrow> addr) \<Rightarrow> addr \<Rightarrow> pobj" where
  "copy_prop h rn = (\<lambda>p. PObj (map_option rn (pparent (pstore h ! p))) (pval (pstore h ! p)))"

definition copied_props :: "heap \<Rightarrow> addr \<Rightarrow> addr list" where
  "copied_props h x = remdups (concat (map (\<lambda>a. nprops (nstore h ! a)) (reachable h x)))"

definition ren_node :: "heap \<Rightarrow> addr \<Rightarrow> addr \<Rightarrow> addr" where
  "ren_node h x = (\<lambda>a. length (nstore h) + index_of (reachable h x) a)"

definition ren_prop :: "heap \<Rightarrow> addr \<Rightarrow> addr \<Rightarrow> addr" where
  "ren_prop h x = (\<lambda>p. length (pstore h) + index_of (copied_props h x) p)"



section \<open>Construction: the name check\<close>

lemmas printable_defs =
  printable_def digits_def ascii_letters_def ascii_lowercase_def ascii_uppercase_def
  punctuation_def whitespace_def

lemma data_append_not_InvalidName: "data_append d v \<noteq> Inl InvalidName"
  by (cases "(d, v)" rule: data_append.cases) auto

lemma PropStrings_append_not_InvalidName: "PropStrings_append d v \<noteq> Inl InvalidName"
  by (cases v) (auto simp: data_append_not_InvalidName)

lemma PropWords_append_not_InvalidName: "PropWords_append w d v \<noteq> Inl InvalidName"
  by (cases v) (auto simp: data_append_not_InvalidName)

lemma append_all_not_InvalidName:
  "(\<And>d v. app d v \<noteq> Inl InvalidName) \<Longrightarrow> append_all app d vs \<noteq> Inl InvalidName"
  by (induction vs arbitrary: d) (auto split: sum.splits)

lemma to_bytes_not_InvalidName: "to_bytes vs \<noteq> Inl InvalidName"
proof (induction vs)
  case Nil
  show ?case by simp
next
  case (Cons v vs)
  then show ?case by (cases v) (auto split: sum.splits)
qed

lemma bytearray_not_InvalidName: "bytearray d \<noteq> Inl InvalidName"
  by (cases d) (auto simp: to_bytes_not_InvalidName)

text \<open>
  Claim C5, as the code has it. The only test \<^verbatim>\<open>BaseItem.__init__\<close> makes on a name
  that is a string is \<^verbatim>\<open>all(c in printable for c in name)\<close>, and it is the first test
  of every constructor: constructing a property of any of the four classes, or a node,
  fails with \<open>InvalidName\<close> if and only if the name contains a character that is not
  in \<^verbatim>\<open>string.printable\<close>. The empty name contains no such character.
\<close>

theorem construction_InvalidName_iff:
  "(new_Property name = Inl InvalidName \<longleftrightarrow> (\<exists>c\<in>set name. c \<notin> set printable))
   \<and> (new_PropStrings name args = Inl InvalidName \<longleftrightarrow> (\<exists>c\<in>set name. c \<notin> set printable))
   \<and> (new_PropWords name args wsize kwdata = Inl InvalidName
        \<longleftrightarrow> (\<exists>c\<in>set name. c \<notin> set printable))
   \<and> (new_PropBytes name data = Inl InvalidName \<longleftrightarrow> (\<exists>c\<in>set name. c \<notin> set printable))
   \<and> (new_Node name kwprops kwnodes = Inl InvalidName
        \<longleftrightarrow> (\<exists>c\<in>set name. c \<notin> set printable))"
proof (cases "list_all (\<lambda>c. c \<in> set printable) name")
  case True
  then have ok: "BaseItem_init name = Inr name"
    and all: "\<not> (\<exists>c\<in>set name. c \<notin> set printable)"
    by (auto simp: BaseItem_init_def list_all_iff)
  have 1: "append_all PropStrings_append (PList []) args \<noteq> Inl InvalidName"
    by (rule append_all_not_InvalidName) (rule PropStrings_append_not_InvalidName)
  have 2: "append_all (PropWords_append wsize) d vs \<noteq> Inl InvalidName" for d vs
    by (rule append_all_not_InvalidName) (rule PropWords_append_not_InvalidName)
  show ?thesis
    using 1 2 [of "PList []" args] 2 [of _ kwdata] bytearray_not_InvalidName
    by (auto simp: ok all new_Property_def new_PropStrings_def new_PropWords_def
        new_PropBytes_def new_Node_def split: sum.splits option.splits)
next
  case False
  then have bad: "BaseItem_init name = Inl InvalidName"
    and ex: "\<exists>c\<in>set name. c \<notin> set printable"
    by (auto simp: BaseItem_init_def list_all_iff)
  show ?thesis
    by (simp add: bad ex new_Property_def new_PropStrings_def new_PropWords_def
        new_PropBytes_def new_Node_def)
qed

text \<open>
  The theorem at two names: a name holding the character of code 0 is refused, the
  name \<open>soc\<close> is not.
\<close>

theorem construction_InvalidName_witness:
  "new_Property [CHR 0x00] = Inl InvalidName \<and> new_Node ''soc'' [] [] \<noteq> Inl InvalidName"
  using construction_InvalidName_iff [of "[CHR 0x00]"]
    construction_InvalidName_iff [of "''soc''" _ _ _ _ "[]" "[]"]
  by (simp add: printable_defs)

text \<open>
  Claim C5 as it is written says that construction with the empty string as name
  fails. It does not: a property, a string-list property and a node are constructed
  with the empty name.
\<close>

theorem empty_name_accepted:
  "new_Property [] = Inr (Property [] None) \<and> new_Node [] [] [] = Inr (Node [] [] [])
   \<and> new_PropStrings [] [] = Inr (PropStrings [] (PList []))"
  by (simp add: new_Property_def new_Node_def new_PropStrings_def BaseItem_init_def)

section \<open>Equality of properties and of nodes\<close>

lemma eq_loop_iff: "eq_loop xs ys is \<longleftrightarrow> (\<forall>i\<in>set is. xs ! i = ys ! i)"
  by (induction "is") auto

lemma data_eq_iff: "data_eq n d n' d' \<longleftrightarrow> n = n' \<and> elems d = elems d'"
  unfolding data_eq_def eq_loop_iff list_eq_iff_nth_eq [of "elems d" "elems d'"] by auto

lemma prop_op_eq_iff:
  "prop_op_eq a b \<longleftrightarrow>
     type_of_prop a = type_of_prop b \<and> p_name a = p_name b \<and> prop_values a = prop_values b"
  by (cases a; cases b; simp add: prop_op_eq_def data_eq_iff; blast)

text \<open>
  Called as a plain function, \<^verbatim>\<open>Property.__eq__\<close> accepts an instance of a subclass
  with the same name. The operator \<^verbatim>\<open>==\<close> never takes that path: the subclass's
  method has priority on either side.
\<close>

lemma Property_eq_accepts_subclass:
  "Property_eq (Property n None) (OProp (PropStrings n d)) = True"
  by simp

lemma py_eq_props: "py_eq (OProp a) (OProp b) = Inr (prop_op_eq a b)"
  by (simp add: py_eq_def prop_op_eq_def)

lemma py_eq_nodes: "py_eq (ONode a) (ONode b) = Inr (Node_eq_body a b)"
  by (simp add: py_eq_def)

lemma prop_op_eq_refl: "prop_op_eq a a"
  by (simp add: prop_op_eq_iff)

lemma prop_op_eq_sym: "prop_op_eq a b \<longleftrightarrow> prop_op_eq b a"
  by (auto simp: prop_op_eq_iff)

lemma Node_eq_body_refl: "Node_eq_body a a"
proof (induction a)
  case (Node n ps cs)
  have "\<not> list_ex (\<lambda>p. \<not> contains prop_op_eq p ps) ps"
    by (auto simp: list_ex_iff contains_def intro: prop_op_eq_refl)
  moreover have "\<not> list_ex (\<lambda>c. \<not> list_ex (\<lambda>e. Node_eq_body e c) cs) cs"
    using Node.IH by (auto simp: list_ex_iff)
  ultimately show ?case by simp
qed

text \<open>
  Claim C1. For every two properties \<open>a\<close> and \<open>b\<close>, \<^verbatim>\<open>a == b\<close> holds if and only
  if they are of the same class (Empty, StringList, WordList, ByteList), have the same
  name, the same number of values and equal values at every index; and a property of
  class \<^verbatim>\<open>Property\<close> (Empty) is never equal to one of another class, on either side
  of \<^verbatim>\<open>==\<close>, whatever the names.
\<close>

theorem prop_equality_iff:
  "(prop_op_eq a b \<longleftrightarrow>
      type_of_prop a = type_of_prop b \<and> p_name a = p_name b
      \<and> length (prop_values a) = length (prop_values b)
      \<and> (\<forall>i < length (prop_values a). prop_values a ! i = prop_values b ! i))
   \<and> (type_of_prop a = TProperty \<and> type_of_prop b \<noteq> TProperty
        \<longrightarrow> \<not> prop_op_eq a b \<and> \<not> prop_op_eq b a)"
  unfolding prop_op_eq_iff list_eq_iff_nth_eq [of "prop_values a" "prop_values b"]
  by (cases a; cases b; auto simp: prop_op_eq_iff)

text \<open>
  The theorem at an Empty property and a string list of the same name, and at two equal
  word lists.
\<close>

theorem prop_equality_witness:
  "\<not> prop_op_eq (Property ''p'' None) (PropStrings ''p'' (PList [VStr ''x'']))
   \<and> \<not> prop_op_eq (PropStrings ''p'' (PList [VStr ''x''])) (Property ''p'' None)
   \<and> prop_op_eq (PropWords ''w'' (PList [VInt 1, VInt 2]) 32) (PropWords ''w'' (PList [VInt 1, VInt 2]) 32)"
  using prop_equality_iff [of "Property ''p'' None" "PropStrings ''p'' (PList [VStr ''x''])"]
    prop_equality_iff [of "PropWords ''w'' (PList [VInt 1, VInt 2]) 32"
      "PropWords ''w'' (PList [VInt 1, VInt 2]) 32"]
  by simp

text \<open>
  Claim C10. \<^verbatim>\<open>node == x\<close> raises (the ValueError "Invalid object type") for every
  value \<open>x\<close> that is not a node, a property among them; \<^verbatim>\<open>p == x\<close> for a property
  \<open>p\<close> is \<^verbatim>\<open>False\<close> for every value \<open>x\<close> of another type.
\<close>

theorem node_eq_non_node_raises:
  "(type_of x \<noteq> TNode \<longrightarrow> py_eq (ONode n) x = Inl InvalidType)
   \<and> (type_of x \<noteq> type_of_prop p \<longrightarrow> py_eq (OProp p) x = Inr False)"
proof (intro conjI impI)
  assume "type_of x \<noteq> TNode"
  then show "py_eq (ONode n) x = Inl InvalidType"
    by (cases x) (auto simp: py_eq_def)
next
  assume "type_of x \<noteq> type_of_prop p"
  then show "py_eq (OProp p) x = Inr False"
  proof (cases x)
    case (OProp q)
    with \<open>type_of x \<noteq> type_of_prop p\<close> show ?thesis
      by (cases p; cases q) (auto simp: py_eq_def)
  qed (cases p; auto simp: py_eq_def)+
qed

text \<open>
  The theorem at a node compared with a property, and at a property compared with a
  node and with a property of another class.
\<close>

theorem node_eq_non_node_witness:
  "py_eq (ONode (Node ''n'' [] [])) (OProp (Property ''n'' None)) = Inl InvalidType
   \<and> py_eq (OProp (Property ''n'' None)) (ONode (Node ''n'' [] [])) = Inr False
   \<and> py_eq (OProp (PropWords ''n'' (PList []) 32)) (OProp (PropBytes ''n'' (PBytes []))) = Inr False"
  using node_eq_non_node_raises [of "OProp (Property ''n'' None)" "Node ''n'' [] []" "PropWords ''n'' (PList []) 32"]
    node_eq_non_node_raises [of "ONode (Node ''n'' [] [])" _ "Property ''n'' None"]
    node_eq_non_node_raises [of "OProp (PropBytes ''n'' (PBytes []))" _ "PropWords ''n'' (PList []) 32"]
  by simp

section \<open>The string table\<close>

lemma occurs_at_Cons_Suc: "occurs_at (c # s) sub (Suc i) = occurs_at s sub i"
  by (simp add: occurs_at_def)

lemma occurs_at_0: "occurs_at s sub 0 \<longleftrightarrow> take (length sub) s = sub"
  by (simp add: occurs_at_def)

lemma take_append_short: "n \<le> length xs \<Longrightarrow> take n (xs @ ys) = take n xs"
  by simp

lemma occurs_at_bound:
  assumes a: "occurs_at s sub i" and ne: "sub \<noteq> []"
  shows "i + length sub \<le> length s"
proof -
  have "length (take (length sub) (drop i s)) \<le> length s - i"
    by simp
  then have L: "length sub \<le> length s - i"
    using a by (simp only: occurs_at_def)
  have "1 \<le> length sub" using ne by (cases sub) simp_all
  with L show ?thesis by arith
qed

lemma str_find_ge: "- 1 \<le> str_find s sub"
  by (induction s) (auto simp: Let_def)

lemma str_find_neg_iff: "str_find s sub < 0 \<longleftrightarrow> (\<forall>i. \<not> occurs_at s sub i)"
proof (induction s)
  case Nil
  show ?case by (auto simp: occurs_at_def)
next
  case (Cons c s)
  show ?case
  proof (cases "take (length sub) (c # s) = sub")
    case True
    then have "occurs_at (c # s) sub 0" by (simp add: occurs_at_0)
    with True show ?thesis by auto
  next
    case False
    have "(\<forall>i. \<not> occurs_at (c # s) sub i) \<longleftrightarrow> (\<forall>i. \<not> occurs_at s sub i)"
    proof
      assume "\<forall>i. \<not> occurs_at (c # s) sub i"
      then show "\<forall>i. \<not> occurs_at s sub i"
        using occurs_at_Cons_Suc by blast
    next
      assume h: "\<forall>i. \<not> occurs_at s sub i"
      show "\<forall>i. \<not> occurs_at (c # s) sub i"
      proof
        fix i show "\<not> occurs_at (c # s) sub i"
          using h False by (cases i) (simp_all add: occurs_at_0 occurs_at_Cons_Suc)
      qed
    qed
    with False Cons.IH show ?thesis
      using str_find_ge [of s sub] by (auto simp: Let_def)
  qed
qed

lemma str_find_least:
  "0 \<le> str_find s sub \<Longrightarrow>
     occurs_at s sub (nat (str_find s sub)) \<and> (\<forall>j < nat (str_find s sub). \<not> occurs_at s sub j)"
proof (induction s)
  case Nil
  then show ?case by (auto simp: occurs_at_def split: if_splits)
next
  case (Cons c s)
  show ?case
  proof (cases "take (length sub) (c # s) = sub")
    case True
    then show ?thesis by (simp add: occurs_at_0)
  next
    case False
    with Cons.prems have r: "0 \<le> str_find s sub" and e: "str_find (c # s) sub = str_find s sub + 1"
      by (auto simp: Let_def split: if_splits)
    then have n: "nat (str_find (c # s) sub) = Suc (nat (str_find s sub))" by simp
    have ih: "occurs_at s sub (nat (str_find s sub))" "\<forall>j < nat (str_find s sub). \<not> occurs_at s sub j"
      using Cons.IH [OF r] by auto
    show ?thesis
    proof (intro conjI allI impI)
      show "occurs_at (c # s) sub (nat (str_find (c # s) sub))"
        using ih(1) by (simp only: n occurs_at_Cons_Suc)
    next
      fix j assume "j < nat (str_find (c # s) sub)"
      then have "j < Suc (nat (str_find s sub))" by (simp only: n)
      then show "\<not> occurs_at (c # s) sub j"
        using ih(2) False by (cases j) (simp_all add: occurs_at_0 occurs_at_Cons_Suc)
    qed
  qed
qed

lemma str_find_eqI:
  assumes "occurs_at s sub i" and "\<forall>j<i. \<not> occurs_at s sub j"
  shows "str_find s sub = int i"
proof -
  have "\<not> str_find s sub < 0" using assms(1) by (auto simp: str_find_neg_iff)
  then have r: "0 \<le> str_find s sub" by simp
  let ?k = "nat (str_find s sub)"
  from str_find_least [OF r] have a: "occurs_at s sub ?k" and b: "\<forall>j < ?k. \<not> occurs_at s sub j"
    by auto
  have "\<not> ?k < i" using a assms(2) by blast
  moreover have "\<not> i < ?k" using b assms(1) by blast
  ultimately have "?k = i" by simp
  with r show ?thesis by simp
qed

lemma occurs_at_append:
  assumes "i + length sub \<le> length s"
  shows "occurs_at (s @ t) sub i \<longleftrightarrow> occurs_at s sub i"
proof -
  have i: "i \<le> length s" and "length sub \<le> length (drop i s)"
    using assms by simp_all
  then have "take (length sub) (drop i s @ t) = take (length sub) (drop i s)"
    by (intro take_append_short)
  moreover have "drop i (s @ t) = drop i s @ t" using i by simp
  ultimately have "take (length sub) (drop i (s @ t)) = take (length sub) (drop i s)"
    by (simp only:)
  then show ?thesis by (simp only: occurs_at_def)
qed

lemma str_find_append_found:
  assumes "0 \<le> str_find s sub"
  shows "str_find (s @ t) sub = str_find s sub"
proof (cases "sub = []")
  case True
  have "str_find u [] = 0" for u by (cases u) simp_all
  then show ?thesis using True by simp
next
  case False
  let ?k = "nat (str_find s sub)"
  from str_find_least [OF assms] have a: "occurs_at s sub ?k" and b: "\<forall>j < ?k. \<not> occurs_at s sub j"
    by auto
  have bound: "?k + length sub \<le> length s" using a False by (rule occurs_at_bound)
  have "occurs_at (s @ t) sub ?k" using a bound by (simp add: occurs_at_append)
  moreover have "\<forall>j < ?k. \<not> occurs_at (s @ t) sub j"
  proof (intro allI impI)
    fix j assume "j < ?k"
    then have "j + length sub \<le> length s" using bound by simp
    then show "\<not> occurs_at (s @ t) sub j" using b \<open>j < ?k\<close> by (simp add: occurs_at_append)
  qed
  ultimately have "str_find (s @ t) sub = int ?k" by (rule str_find_eqI)
  with assms show ?thesis by simp
qed

lemma str_find_append_fresh:
  assumes nf: "str_find s (n @ [z]) < 0" and nz: "z \<notin> set n"
  shows "str_find (s @ n @ [z] @ t) (n @ [z]) = int (length s)"
proof (rule str_find_eqI)
  show "occurs_at (s @ n @ [z] @ t) (n @ [z]) (length s)"
    by (simp add: occurs_at_def)
next
  show "\<forall>j < length s. \<not> occurs_at (s @ n @ [z] @ t) (n @ [z]) j"
  proof (intro allI impI notI)
    fix j assume j: "j < length s" and occ: "occurs_at (s @ n @ [z] @ t) (n @ [z]) j"
    let ?full = "s @ n @ [z] @ t"
    have no: "\<not> occurs_at s (n @ [z]) j" using nf by (simp add: str_find_neg_iff)
    have long: "\<not> j + length (n @ [z]) \<le> length s"
    proof
      assume "j + length (n @ [z]) \<le> length s"
      then have "occurs_at ?full (n @ [z]) j \<longleftrightarrow> occurs_at s (n @ [z]) j"
        by (rule occurs_at_append)
      with occ no show False by simp
    qed
    have eq: "take (Suc (length n)) (drop j ?full) = n @ [z]"
      using occ by (simp add: occurs_at_def)
    have "(take (Suc (length n)) (drop j ?full)) ! length n = (drop j ?full) ! length n"
      by (rule nth_take) simp
    also have "\<dots> = ?full ! (j + length n)"
      using j by (intro nth_drop) simp
    finally have "?full ! (j + length n) = (n @ [z]) ! length n"
      using eq by simp
    then have z: "?full ! (j + length n) = z" by simp
    from long j have idx: "length s \<le> j + length n" "j + length n - length s < length n"
      by simp_all
    have "?full ! (j + length n) = (n @ [z] @ t) ! (j + length n - length s)"
      using idx(1) by (simp add: nth_append)
    also have "\<dots> = n ! (j + length n - length s)"
      using idx(2) by (simp add: nth_append)
    finally have "z = n ! (j + length n - length s)" using z by simp
    then have "z \<in> set n" using idx(2) by (metis nth_mem)
    with nz show False by simp
  qed
qed

lemma strings_lookup_cases:
  "strings_lookup s n = (if str_find s (n @ [CHR 0x00]) < 0
     then (int (length s), s @ n @ [CHR 0x00]) else (str_find s (n @ [CHR 0x00]), s))"
  by (simp add: strings_lookup_def Let_def)

lemma strings_lookup_again:
  assumes "strings_lookup s n = (k, s1)" and "CHR 0x00 \<notin> set n"
  shows "strings_lookup (s1 @ t) n = (k, s1 @ t)"
proof (cases "str_find s (n @ [CHR 0x00]) < 0")
  case True
  with assms(1) have k: "k = int (length s)" and s1: "s1 = s @ n @ [CHR 0x00]"
    by (simp_all add: strings_lookup_cases)
  have "str_find (s @ n @ [CHR 0x00] @ t) (n @ [CHR 0x00]) = int (length s)"
    using True assms(2) by (rule str_find_append_fresh)
  then show ?thesis by (simp add: strings_lookup_cases k s1)
next
  case False
  with assms(1) have k: "k = str_find s (n @ [CHR 0x00])" and s1: "s1 = s"
    by (auto simp: strings_lookup_cases)
  have "str_find (s @ t) (n @ [CHR 0x00]) = str_find s (n @ [CHR 0x00])"
    using False by (intro str_find_append_found) simp
  then show ?thesis using False by (simp add: strings_lookup_cases k s1)
qed

lemma length_be32 [simp]: "length (be32 w) = 4"
  by (simp add: be32_def)


lemma pack_III_Inr:
  "pack_III tag a b = Inr h \<Longrightarrow>
     h = be32 tag @ be32 (word_of_int a) @ be32 (word_of_int b) \<and> pack_I a = Inr (be32 (word_of_int a))
     \<and> pack_I b = Inr (be32 (word_of_int b))"
  by (auto simp: pack_III_def pack_I_def split: sum.splits if_splits)


lemma header_fields:
  assumes "pack_III tag a b = Inr h"
  shows "take 4 (drop 4 (h @ rest)) = be32 (word_of_int a)"
    and "take 4 (drop 8 (h @ rest)) = be32 (word_of_int b)"
  using pack_III_Inr [OF assms] by simp_all

lemma prop_to_dtb_strings:
  assumes "prop_to_dtb T p s pos v = Inr (blob, s', pos')"
  shows "s' = snd (strings_lookup s (p_name p))"
    and "pack_I (fst (strings_lookup s (p_name p))) = Inr (take 4 (drop 8 blob))"
    and "pos' = pos + int (length blob)"
proof -
  obtain k s1 where l: "strings_lookup s (p_name p) = (k, s1)" by (cases "strings_lookup s (p_name p)")
  have "s' = s1 \<and> pack_I k = Inr (take 4 (drop 8 blob)) \<and> pos' = pos + int (length blob)"
  proof (cases p)
    case (Property n st)
    with assms l show ?thesis
      by (auto simp: Property_to_dtb_def split: sum.splits dest!: pack_III_Inr)
  next
    case (PropStrings n d)
    with assms l show ?thesis
      by (auto simp: PropStrings_to_dtb_def Let_def split: sum.splits dest!: pack_III_Inr)
  next
    case (PropWords n d w)
    with assms l show ?thesis
      by (auto simp: PropWords_to_dtb_def Let_def split: sum.splits dest!: pack_III_Inr)
  next
    case (PropBytes n d)
    with assms l show ?thesis
      by (auto simp: PropBytes_to_dtb_def Let_def split: sum.splits dest!: pack_III_Inr)
  qed
  with l show "s' = snd (strings_lookup s (p_name p))"
    and "pack_I (fst (strings_lookup s (p_name p))) = Inr (take 4 (drop 8 blob))"
    and "pos' = pos + int (length blob)" by simp_all
qed

lemma entries_simps [simp]:
  "entries [] = []" "entries (n # ns) = n @ [CHR 0x00] @ entries ns"
  "entries (xs @ ys) = entries xs @ entries ys"
  by (simp_all add: entries_def)

lemma inserted_names_append:
  "inserted_names s (xs @ ys) =
     inserted_names s xs @ inserted_names (s @ entries (inserted_names s xs)) ys"
  by (induction xs arbitrary: s) simp_all

lemma strings_lookup_snd: "snd (strings_lookup s n) = s @ entries (inserted_names s [n])"
  by (simp add: strings_lookup_cases)

lemma props_to_dtb_strings:
  "props_to_dtb T ps blob s pos v = Inr (blob', s', pos') \<Longrightarrow>
     s' = s @ entries (inserted_names s (map p_name ps))"
proof (induction ps arbitrary: blob s pos)
  case Nil
  then show ?case by simp
next
  case (Cons p ps)
  from Cons.prems obtain d s1 pos1 where
    p: "prop_to_dtb T p s pos v = Inr (d, s1, pos1)" and
    r: "props_to_dtb T ps (blob @ d) s1 pos1 v = Inr (blob', s', pos')"
    by (auto split: sum.splits)
  have s1: "s1 = s @ entries (inserted_names s [p_name p])"
    using prop_to_dtb_strings(1) [OF p] by (simp only: strings_lookup_snd)
  have "s' = s1 @ entries (inserted_names s1 (map p_name ps))"
    using r by (rule Cons.IH)
  then show ?case
    using inserted_names_append [of s "[p_name p]" "map p_name ps"] by (simp add: s1)
qed

lemma to_dtb_strings:
  "Node_to_dtb T n s pos v = Inr (b, s', pos') \<Longrightarrow>
     s' = s @ entries (inserted_names s (walk_names n))"
  "nodes_to_dtb T cs blob s pos v = Inr (b, s', pos') \<Longrightarrow>
     s' = s @ entries (inserted_names s (concat (map walk_names cs)))"
proof (induction T n s pos v and T cs blob s pos v arbitrary: b s' pos' and b s' pos'
    rule: Node_to_dtb_nodes_to_dtb.induct)
  case (1 T name ps cs strings pos version)
  from "1.prems" obtain blob0 blob1 s1 pos1 blob2 pos2 where
    bn: "begin_node T name = Inr blob0" and
    pr: "props_to_dtb T ps blob0 strings (pos + int (length blob0)) version = Inr (blob1, s1, pos1)" and
    nd: "nodes_to_dtb T cs blob1 s1 pos1 version = Inr (blob2, s', pos2)"
    by (auto split: sum.splits)
  have s1: "s1 = strings @ entries (inserted_names strings (map p_name ps))"
    using pr by (rule props_to_dtb_strings)
  have "s' = s1 @ entries (inserted_names s1 (concat (map walk_names cs)))"
    using "1.IH" [OF bn pr refl refl nd] .
  then show ?case
    using inserted_names_append [of strings "map p_name ps" "concat (map walk_names cs)"]
    by (simp add: s1)
next
  case (2 T blob strings pos version)
  then show ?case by simp
next
  case (3 T c cs blob strings pos version)
  from "3.prems" obtain d s1 pos1 where
    c: "Node_to_dtb T c strings pos version = Inr (d, s1, pos1)" and
    r: "nodes_to_dtb T cs (blob @ d) s1 pos1 version = Inr (b, s', pos')"
    by (auto split: sum.splits)
  have s1: "s1 = strings @ entries (inserted_names strings (walk_names c))"
    using c by (rule "3.IH"(1))
  have "s' = s1 @ entries (inserted_names s1 (concat (map walk_names cs)))"
    using "3.IH"(2) [OF c refl refl r] .
  then show ?case
    using inserted_names_append [of strings "walk_names c" "concat (map walk_names cs)"]
    by (simp add: s1)
qed

lemma inserted_not_found:
  "m \<in> set (inserted_names s ns) \<Longrightarrow> str_find s (m @ [CHR 0x00]) < 0"
proof (induction ns arbitrary: s)
  case Nil
  then show ?case by simp
next
  case (Cons n ns)
  show ?case
  proof (cases "str_find s (n @ [CHR 0x00]) < 0")
    case False
    with Cons show ?thesis by simp
  next
    case True
    show ?thesis
    proof (cases "m = n")
      case True
      with \<open>str_find s (n @ [CHR 0x00]) < 0\<close> show ?thesis by simp
    next
      case False
      with True Cons.prems have "m \<in> set (inserted_names (s @ n @ [CHR 0x00]) ns)" by simp
      then have later: "str_find (s @ n @ [CHR 0x00]) (m @ [CHR 0x00]) < 0" by (rule Cons.IH)
      show ?thesis
      proof (rule ccontr)
        assume "\<not> str_find s (m @ [CHR 0x00]) < 0"
        then have "0 \<le> str_find s (m @ [CHR 0x00])" by simp
        then have "str_find (s @ n @ [CHR 0x00]) (m @ [CHR 0x00]) = str_find s (m @ [CHR 0x00])"
          by (rule str_find_append_found)
        with later \<open>\<not> str_find s (m @ [CHR 0x00]) < 0\<close> show False by simp
      qed
    qed
  qed
qed

lemma str_find_own_entry: "0 \<le> str_find (s @ n @ [z]) (n @ [z])"
proof -
  have "occurs_at (s @ n @ [z]) (n @ [z]) (length s)" by (simp add: occurs_at_def)
  then have "\<not> str_find (s @ n @ [z]) (n @ [z]) < 0" by (auto simp: str_find_neg_iff)
  then show ?thesis by simp
qed

lemma distinct_inserted_names: "distinct (inserted_names s ns)"
proof (induction ns arbitrary: s)
  case Nil
  show ?case by simp
next
  case (Cons n ns)
  have "n \<notin> set (inserted_names (s @ n @ [CHR 0x00]) ns)"
    using inserted_not_found [of n "s @ n @ [CHR 0x00]" ns] str_find_own_entry [of s n "CHR 0x00"]
    by auto
  with Cons.IH show ?case by simp
qed

text \<open>
  Claim C7, as the code has it. The string table is searched with \<^verbatim>\<open>find\<close> for the
  name followed by the zero character, anywhere in the table, and the name is appended
  only when that search fails.

  First part: when a property \<open>p\<close> has been encoded and a property \<open>q\<close> of the same
  name is encoded later in the walk, on a table that the walk has meanwhile extended by
  any \<open>t\<close>, then \<open>q\<close> appends nothing and its record carries the name offset of the
  record of \<open>p\<close>; and \<open>p\<close> itself appended its name if \<^verbatim>\<open>find\<close> did not find it, and
  nothing otherwise. (Names hold no zero character: it is not printable.)

  Second part: the table a whole walk of \<^verbatim>\<open>Node.to_dtb\<close> returns is the table it was
  given followed by the names \<open>inserted_names\<close> lists, each with its zero character,
  and no name is in that list twice: every name is inserted at most once.
\<close>

theorem string_table_dedup:
  "(prop_to_dtb T p s pos v = Inr (b1, s1, pos1)
      \<and> prop_to_dtb T q (s1 @ t) pos2 v2 = Inr (b2, s2, pos3)
      \<and> p_name q = p_name p \<and> CHR 0x00 \<notin> set (p_name p)
    \<longrightarrow> s2 = s1 @ t \<and> take 4 (drop 8 b2) = take 4 (drop 8 b1)
        \<and> (if str_find s (p_name p @ [CHR 0x00]) < 0 then s1 = s @ p_name p @ [CHR 0x00]
            else s1 = s))
   \<and> (Node_to_dtb T n s pos v = Inr (b, s', pos')
    \<longrightarrow> s' = s @ entries (inserted_names s (walk_names n))
        \<and> distinct (inserted_names s (walk_names n)))"
proof (intro conjI impI)
  assume a: "prop_to_dtb T p s pos v = Inr (b1, s1, pos1)
      \<and> prop_to_dtb T q (s1 @ t) pos2 v2 = Inr (b2, s2, pos3)
      \<and> p_name q = p_name p \<and> CHR 0x00 \<notin> set (p_name p)"
  obtain k where k: "strings_lookup s (p_name p) = (k, s1)"
    using prop_to_dtb_strings(1) [of T p s pos v b1 s1 pos1] a
    by (cases "strings_lookup s (p_name p)") simp
  have again: "strings_lookup (s1 @ t) (p_name p) = (k, s1 @ t)"
    using k a by (intro strings_lookup_again) simp_all
  have f1: "pack_I k = Inr (take 4 (drop 8 b1))"
    using prop_to_dtb_strings(2) [of T p s pos v b1 s1 pos1] a k by simp
  have f2: "pack_I k = Inr (take 4 (drop 8 b2))"
    using prop_to_dtb_strings(2) [of T q "s1 @ t" pos2 v2 b2 s2 pos3] a again by simp
  show "s2 = s1 @ t"
    using prop_to_dtb_strings(1) [of T q "s1 @ t" pos2 v2 b2 s2 pos3] a again by simp
  show "take 4 (drop 8 b2) = take 4 (drop 8 b1)"
    using f1 f2 by simp
  show "if str_find s (p_name p @ [CHR 0x00]) < 0 then s1 = s @ p_name p @ [CHR 0x00]
            else s1 = s"
    using k by (auto simp: strings_lookup_cases split: if_splits)
next
  assume "Node_to_dtb T n s pos v = Inr (b, s', pos')"
  then show "s' = s @ entries (inserted_names s (walk_names n))"
    by (rule to_dtb_strings(1))
next
  show "distinct (inserted_names s (walk_names n))"
    by (rule distinct_inserted_names)
qed

text \<open>
  The theorem at the word list \<open>reg\<close> encoded on the empty table and the empty
  property \<open>reg\<close> encoded after the name \<open>x\<close> has been appended: both records end
  in the offset 0, and the second leaves the table as it is. And at the walk of the
  second example tree, which inserts \<open>reg\<close> once.
\<close>

theorem string_table_dedup_witness:
  "prop_to_dtb fdt_tags (PropWords ''reg'' (PList [VInt 1]) 32) [] 0 17
     = Inr ([0, 0, 0, 3, 0, 0, 0, 4, 0, 0, 0, 0, 0, 0, 0, 1], ''reg'' @ [CHR 0x00], 16)
   \<and> prop_to_dtb fdt_tags (Property ''reg'' None) ((''reg'' @ [CHR 0x00]) @ ''x'' @ [CHR 0x00]) 16 17
     = Inr ([0, 0, 0, 3, 0, 0, 0, 0, 0, 0, 0, 0], (''reg'' @ [CHR 0x00]) @ ''x'' @ [CHR 0x00], 28)
   \<and> Node_to_dtb fdt_tags two_reg_tree [] 0 17 =
     Inr ([0, 0, 0, 1, 0, 0, 0, 0,
           0, 0, 0, 1, 97, 0, 0, 0,
           0, 0, 0, 3, 0, 0, 0, 4, 0, 0, 0, 0, 0, 0, 0, 1,
           0, 0, 0, 2,
           0, 0, 0, 1, 98, 0, 0, 0,
           0, 0, 0, 3, 0, 0, 0, 4, 0, 0, 0, 0, 0, 0, 0, 2,
           0, 0, 0, 2,
           0, 0, 0, 2], ''reg'' @ [CHR 0x00], 68)
   \<and> inserted_names [] (walk_names two_reg_tree) = [''reg'']
   \<and> distinct (inserted_names [] (walk_names two_reg_tree))"
proof -
  have 1: "prop_to_dtb fdt_tags (PropWords ''reg'' (PList [VInt 1]) 32) [] 0 17
     = Inr ([0, 0, 0, 3, 0, 0, 0, 4, 0, 0, 0, 0, 0, 0, 0, 1], ''reg'' @ [CHR 0x00], 16)"
    by code_simp
  have 2: "prop_to_dtb fdt_tags (Property ''reg'' None) ((''reg'' @ [CHR 0x00]) @ ''x'' @ [CHR 0x00]) 16 17
     = Inr ([0, 0, 0, 3, 0, 0, 0, 0, 0, 0, 0, 0], (''reg'' @ [CHR 0x00]) @ ''x'' @ [CHR 0x00], 28)"
    by code_simp
  have 3: "Node_to_dtb fdt_tags two_reg_tree [] 0 17 =
     Inr ([0, 0, 0, 1, 0, 0, 0, 0,
           0, 0, 0, 1, 97, 0, 0, 0,
           0, 0, 0, 3, 0, 0, 0, 4, 0, 0, 0, 0, 0, 0, 0, 1,
           0, 0, 0, 2,
           0, 0, 0, 1, 98, 0, 0, 0,
           0, 0, 0, 3, 0, 0, 0, 4, 0, 0, 0, 0, 0, 0, 0, 2,
           0, 0, 0, 2,
           0, 0, 0, 2], ''reg'' @ [CHR 0x00], 68)"
    by code_simp
  have 4: "inserted_names [] (walk_names two_reg_tree) = [''reg'']"
    by code_simp
  have "distinct (inserted_names [] (walk_names two_reg_tree))"
    using 1 2 3 string_table_dedup [of fdt_tags "PropWords ''reg'' (PList [VInt 1]) 32" "[]" 0 17
        _ "''reg'' @ [CHR 0x00]" 16 "Property ''reg'' None" "''x'' @ [CHR 0x00]" 16 17
        _ _ 28 two_reg_tree _ "''reg'' @ [CHR 0x00]" 68]
    by simp
  with 1 2 3 4 show ?thesis by simp
qed

text \<open>
  Claim C7 as it is written says that the name of two properties is inserted exactly
  once. In the example tree the two properties \<open>b\<close> are encoded after the property
  \<open>ab\<close>: \<^verbatim>\<open>find\<close> finds \<open>b\<close> and the zero character at index 1, inside the
  entry of \<open>ab\<close>, so \<open>b\<close> is never inserted. The table returned holds \<open>ab\<close> alone,
  and both records of \<open>b\<close> carry the offset 1.
\<close>

theorem shared_tail_never_inserted:
  "Node_to_dtb fdt_tags shared_tail_tree [] 0 17 =
     Inr ([0, 0, 0, 1, 0, 0, 0, 0,
           0, 0, 0, 3, 0, 0, 0, 0, 0, 0, 0, 0,
           0, 0, 0, 1, 110, 49, 0, 0,
           0, 0, 0, 3, 0, 0, 0, 0, 0, 0, 0, 1,
           0, 0, 0, 2,
           0, 0, 0, 1, 110, 50, 0, 0,
           0, 0, 0, 3, 0, 0, 0, 0, 0, 0, 0, 1,
           0, 0, 0, 2,
           0, 0, 0, 2], ''ab'' @ [CHR 0x00], 72)
   \<and> inserted_names [] (walk_names shared_tail_tree) = [''ab'']
   \<and> count_list (walk_names shared_tail_tree) ''b'' = 2
   \<and> count_list (inserted_names [] (walk_names shared_tail_tree)) ''b'' = 0"
  by code_simp

section \<open>Records of the binary form\<close>

lemma length_zeros [simp]: "length (zeros n) = nat n"
  by (simp add: zeros_def)


lemma strings_lookup_fst_nonneg: "0 \<le> fst (strings_lookup s n)"
  using str_find_ge [of s "n @ [CHR 0x00]"] by (simp add: strings_lookup_cases)

lemma pack_III_ok:
  "0 \<le> a \<Longrightarrow> a < 2 ^ 32 \<Longrightarrow> 0 \<le> b \<Longrightarrow> b < 2 ^ 32 \<Longrightarrow>
     pack_III tag a b = Inr (be32 tag @ be32 (word_of_int a) @ be32 (word_of_int b))"
  by (simp add: pack_III_def pack_I_def)

lemma strings_blob_length:
  "strings_blob (map VStr ss) = Inr raw \<Longrightarrow> length raw = sum_list (map (\<lambda>s. length s + 1) ss)"
proof (induction ss arbitrary: raw)
  case Nil
  then show ?case by simp
next
  case (Cons s ss)
  then show ?case
    by (auto simp: encode_ascii_def split: sum.splits if_splits)
qed




text \<open>
  Claim C3, as the code has it. \<^verbatim>\<open>PropStrings.to_dtb\<close> takes \<^verbatim>\<open>blob_len\<close> right
  after the loop that builds the payload, before either padding. For every string-list
  property whose payload \<open>raw\<close> (the bytes of each string and one zero byte after
  each) is built and fits the 32-bit fields, the encoder returns a record whose length
  field, the bytes 4 to 7, is \<^verbatim>\<open>pack('>I', len(raw))\<close>, and whose bytes from 12 on are
  the padding before (version below 16), \<open>raw\<close>, and the padding after: the length
  written counts neither padding.
\<close>

theorem PropStrings_length_field:
  "strings_blob (elems data) = Inr raw \<and> length raw < 2 ^ 32
     \<and> fst (strings_lookup strings name) < 2 ^ 32
   \<longrightarrow> (\<exists>blob strings' pos'.
        PropStrings_to_dtb T name data strings pos version = Inr (blob, strings', pos')
        \<and> pack_I (int (length raw)) = Inr (take 4 (drop 4 blob))
        \<and> drop 12 blob = pre_pad pos version @ raw @ trail_pad (length raw))"
proof (intro impI)
  assume a: "strings_blob (elems data) = Inr raw \<and> length raw < 2 ^ 32
     \<and> fst (strings_lookup strings name) < 2 ^ 32"
  obtain k s1 where l: "strings_lookup strings name = (k, s1)"
    by (cases "strings_lookup strings name")
  have k: "0 \<le> k" "k < 2 ^ 32"
    using strings_lookup_fst_nonneg [of strings name] a l by simp_all
  have len: "0 \<le> int (length raw)" "int (length raw) < 2 ^ 32"
    using a by simp_all
  have h: "pack_III (DTB_PROP T) (int (length raw)) k
      = Inr (be32 (DTB_PROP T) @ be32 (word_of_int (int (length raw))) @ be32 (word_of_int k))"
    using len k by (rule pack_III_ok)
  have p: "pack_I (int (length raw)) = Inr (be32 (word_of_int (int (length raw))))"
    using len by (simp add: pack_I_def)
  show "\<exists>blob strings' pos'.
        PropStrings_to_dtb T name data strings pos version = Inr (blob, strings', pos')
        \<and> pack_I (int (length raw)) = Inr (take 4 (drop 4 blob))
        \<and> drop 12 blob = pre_pad pos version @ raw @ trail_pad (length raw)"
    using a by (simp add: PropStrings_to_dtb_def Let_def l h p pre_pad_def trail_pad_def)
qed

text \<open>
  The theorem at the string list \<open>p = ["a"]\<close>, at position 0 and version 15: four
  zero bytes before the payload, two after, and the length 2.
\<close>

theorem PropStrings_length_field_witness:
  "PropStrings_to_dtb fdt_tags ''p'' (PList [VStr ''a'']) [] 0 15
     = Inr ([0, 0, 0, 3, 0, 0, 0, 2, 0, 0, 0, 0, 0, 0, 0, 0, 97, 0, 0, 0], ''p'' @ [CHR 0x00], 20)
   \<and> pack_I 2 = Inr [0, 0, 0, 2]"
proof -
  have 1: "strings_blob (elems (PList [VStr ''a''])) = Inr [97, 0]" by code_simp
  have 2: "fst (strings_lookup [] ''p'') < 2 ^ 32" by code_simp
  have 3: "PropStrings_to_dtb fdt_tags ''p'' (PList [VStr ''a'']) [] 0 15
     = Inr ([0, 0, 0, 3, 0, 0, 0, 2, 0, 0, 0, 0, 0, 0, 0, 0, 97, 0, 0, 0], ''p'' @ [CHR 0x00], 20)"
    by code_simp
  show ?thesis
    using 1 2 3 PropStrings_length_field [of "PList [VStr ''a'']" "[97, 0]" "[]" "''p''" fdt_tags 0 15]
    by simp
qed

text \<open>
  Claim C3 as it is written says that the length field holds the length after the
  trailing padding. For the string list \<open>p = ["a"]\<close> the record is the header and the
  four bytes \<open>61 00 00 00\<close>: the payload after padding has 4 bytes, and the length
  field holds 2.
\<close>

theorem PropStrings_length_before_padding:
  "prop_to_dtb fdt_tags (PropStrings ''p'' (PList [VStr ''a''])) [] 0 17
     = Inr ([0, 0, 0, 3, 0, 0, 0, 2, 0, 0, 0, 0, 97, 0, 0, 0], ''p'' @ [CHR 0x00], 16)
   \<and> pack_I 2 = Inr (take 4 (drop 4 [0, 0, 0, 3, 0, 0, 0, 2, 0, 0, 0, 0, 97, 0, 0, 0 :: byte]))
   \<and> length (drop 12 [0, 0, 0, 3, 0, 0, 0, 2, 0, 0, 0, 0, 97, 0, 0, 0 :: byte]) = 4"
  by code_simp





section \<open>Merge\<close>

lemma prop_copy_name: "prop_copy q = Inr c \<Longrightarrow> p_name c = p_name q"
  by (cases q)
    (auto simp: new_Property_def new_PropStrings_def new_PropWords_def new_PropBytes_def
      BaseItem_init_def split: sum.splits if_splits option.splits)

lemma set_data_name [simp]: "p_name (set_data x d) = p_name x"
  by (cases x) simp_all

lemma set_data_type [simp]: "type_of_prop (set_data x d) = type_of_prop x"
  by (cases x) simp_all

lemma set_data_data [simp]: "prop_data (set_data x d) = Some d"
  by (cases x) simp_all

lemma get_property_None: "get_property ps n = None \<longleftrightarrow> n \<notin> set (map p_name ps)"
  by (induction ps) auto

lemma get_property_index_None: "get_property_index ps n = None \<longleftrightarrow> n \<notin> set (map p_name ps)"
  by (induction ps) auto

lemma get_property_index_Some:
  "get_property_index ps n = Some i \<Longrightarrow> i < length ps \<and> p_name (ps ! i) = n"
proof (induction ps arbitrary: i)
  case Nil
  then show ?case by simp
next
  case (Cons p ps)
  then show ?case by (cases "p_name p = n") auto
qed

lemma distinct_names_unique:
  assumes "distinct (map p_name ps)" "i < length ps" "j < length ps" "p_name (ps ! i) = p_name (ps ! j)"
  shows "i = j"
proof -
  have "map p_name ps ! i = map p_name ps ! j" using assms by simp
  then show ?thesis
    using assms(1,2,3) nth_eq_iff_index_eq [of "map p_name ps" i j] by simp
qed

lemma get_property_index_distinct:
  assumes "distinct (map p_name ps)" "i < length ps"
  shows "get_property_index ps (p_name (ps ! i)) = Some i"
proof -
  have "p_name (ps ! i) \<in> set (map p_name ps)" using assms(2) by simp
  then obtain j where j: "get_property_index ps (p_name (ps ! i)) = Some j"
    using get_property_index_None [of ps "p_name (ps ! i)"] by (cases "get_property_index ps (p_name (ps ! i))") auto
  from get_property_index_Some [OF j] assms have "j = i"
    by (intro distinct_names_unique [of ps j i]) simp_all
  with j show ?thesis by simp
qed

lemma contains_distinct:
  assumes "distinct (map p_name ps)" "i < length ps" "p_name (ps ! i) = p_name q"
  shows "contains prop_op_eq q ps \<longleftrightarrow> prop_op_eq (ps ! i) q"
proof
  assume "contains prop_op_eq q ps"
  then obtain e where e: "e \<in> set ps" "prop_op_eq e q"
    by (auto simp: contains_def list_ex_iff)
  then obtain j where j: "j < length ps" "ps ! j = e" by (auto simp: in_set_conv_nth)
  have "p_name e = p_name q" using e(2) by (simp add: prop_op_eq_iff)
  then have "j = i" using assms j by (intro distinct_names_unique [of ps j i]) simp_all
  with j e show "prop_op_eq (ps ! i) q" by simp
next
  assume "prop_op_eq (ps ! i) q"
  then show "contains prop_op_eq q ps"
    using assms(2) by (auto simp: contains_def list_ex_iff)
qed

lemma distinct_map_head:
  assumes "distinct (map f (x # xs))" "y \<in> set xs"
  shows "f y \<noteq> f x"
proof -
  have "f x \<notin> set (map f xs)" using assms(1) by simp
  moreover have "f y \<in> set (map f xs)" using assms(2) by simp
  ultimately show ?thesis by metis
qed

lemma merge_prop_absent:
  assumes "merge_prop r self q = Inr self'" "p_name q \<notin> set (map p_name (props self))"
  shows "\<exists>c. prop_copy q = Inr c \<and> props self' = props self @ [c]"
proof -
  have idx: "get_property_index (props self) (p_name q) = None"
    using assms(2) by (simp add: get_property_index_None)
  obtain c where c: "prop_copy q = Inr c" and a: "append_property self c = Inr self'"
    using assms(1) by (auto simp: merge_prop_def idx split: sum.splits)
  have "p_name c = p_name q" using c by (rule prop_copy_name)
  then have "get_property (props self) (p_name c) = None"
    using assms(2) by (simp add: get_property_None)
  then have "props self' = props self @ [c]"
    using a by (auto simp: append_property_def)
  with c show ?thesis by simp
qed

lemma merge_prop_present:
  assumes "merge_prop r self q = Inr self'" "distinct (map p_name (props self))"
    "i < length (props self)" "p_name (props self ! i) = p_name q"
  shows "props self' =
     (if prop_op_eq (props self ! i) q \<or> \<not> r then props self
      else (props self)[i := set_data (props self ! i) (the (prop_data q))])
     \<and> (prop_op_eq (props self ! i) q \<or> \<not> r \<or> prop_data q \<noteq> None)"
proof -
  have idx: "get_property_index (props self) (p_name q) = Some i"
    using get_property_index_distinct [OF assms(2,3)] assms(4) by simp
  have c: "contains prop_op_eq q (props self) \<longleftrightarrow> prop_op_eq (props self ! i) q"
    using assms(2,3,4) by (rule contains_distinct)
  show ?thesis
    using assms(1) by (auto simp: merge_prop_def idx c split: if_splits option.splits)
qed

lemma merge_prop_names:
  assumes "merge_prop r self q = Inr self'" "distinct (map p_name (props self))"
  shows "map p_name (props self') =
     (if p_name q \<in> set (map p_name (props self)) then map p_name (props self)
      else map p_name (props self) @ [p_name q])"
proof (cases "p_name q \<in> set (map p_name (props self))")
  case False
  with merge_prop_absent [OF assms(1)] show ?thesis by (auto dest: prop_copy_name)
next
  case True
  then obtain i where i: "i < length (props self)" "p_name (props self ! i) = p_name q"
    by (auto simp: in_set_conv_nth)
  have "(map p_name (props self))[i := p_name (props self ! i)] = map p_name (props self)"
    using i(1) by (simp add: list_update_same_conv)
  with merge_prop_present [OF assms i] True show ?thesis
    by (auto simp: map_update split: if_splits)
qed

lemma merge_prop_distinct:
  assumes "merge_prop r self q = Inr self'" "distinct (map p_name (props self))"
  shows "distinct (map p_name (props self'))"
  using merge_prop_names [OF assms] assms(2) by (auto split: if_splits)

lemma merge_prop_other:
  assumes "merge_prop r self q = Inr self'" "distinct (map p_name (props self))"
    "i < length (props self)" "p_name (props self ! i) \<noteq> p_name q"
  shows "props self' ! i = props self ! i \<and> i < length (props self')"
proof (cases "p_name q \<in> set (map p_name (props self))")
  case False
  with merge_prop_absent [OF assms(1)] assms(3) show ?thesis by (auto simp: nth_append)
next
  case True
  then obtain j where j: "j < length (props self)" "p_name (props self ! j) = p_name q"
    by (auto simp: in_set_conv_nth)
  then have "j \<noteq> i" using assms(4) by auto
  with merge_prop_present [OF assms(1,2) j] assms(3) show ?thesis
    by (auto split: if_splits)
qed

lemma merge_props_keep:
  assumes "merge_props r self rest = Inr self'" "distinct (map p_name (props self))"
    "i < length (props self)" "p_name (props self ! i) \<notin> set (map p_name rest)"
  shows "props self' ! i = props self ! i \<and> i < length (props self')"
  using assms
proof (induction rest arbitrary: self)
  case Nil
  then show ?case by simp
next
  case (Cons q rest)
  from Cons.prems(1) obtain self1 where
    s: "merge_prop r self q = Inr self1" and t: "merge_props r self1 rest = Inr self'"
    by (auto split: sum.splits)
  have ne: "p_name (props self ! i) \<noteq> p_name q" using Cons.prems(4) by auto
  have o: "props self1 ! i = props self ! i" "i < length (props self1)"
    using merge_prop_other [OF s Cons.prems(2,3) ne] by simp_all
  have d: "distinct (map p_name (props self1))"
    using s Cons.prems(2) by (rule merge_prop_distinct)
  have "props self' ! i = props self1 ! i \<and> i < length (props self')"
    using t d o(2) Cons.prems(4) by (intro Cons.IH) (simp_all add: o(1))
  then show ?case by (simp add: o(1))
qed

lemma merge_props_conflict:
  assumes "merge_props r self rest = Inr self'" "distinct (map p_name (props self))"
    "distinct (map p_name rest)" "i < length (props self)" "pb \<in> set rest"
    "p_name pb = p_name (props self ! i)" "\<not> prop_op_eq (props self ! i) pb"
  shows "if r then \<exists>d. prop_data pb = Some d \<and> props self' ! i = set_data (props self ! i) d
         else props self' ! i = props self ! i"
  using assms
proof (induction rest arbitrary: self)
  case Nil
  then show ?case by simp
next
  case (Cons q rest)
  from Cons.prems(1) obtain self1 where
    s: "merge_prop r self q = Inr self1" and t: "merge_props r self1 rest = Inr self'"
    by (auto split: sum.splits)
  have d: "distinct (map p_name (props self1))"
    using s Cons.prems(2) by (rule merge_prop_distinct)
  show ?case
  proof (cases "q = pb")
    case True
    have nm: "p_name (props self ! i) = p_name q" using True Cons.prems(6) by simp
    have step: "props self1 =
       (if \<not> r then props self
        else (props self)[i := set_data (props self ! i) (the (prop_data q))])"
      and dat: "\<not> r \<or> prop_data q \<noteq> None"
      using merge_prop_present [OF s Cons.prems(2,4) nm] Cons.prems(7) True by auto
    have i1: "i < length (props self1)" using step Cons.prems(4) by (auto split: if_splits)
    have nm1: "p_name (props self1 ! i) = p_name q"
      using step Cons.prems(4) nm by (auto split: if_splits)
    have "p_name (props self1 ! i) \<notin> set (map p_name rest)"
      using Cons.prems(3) nm1 by auto
    from merge_props_keep [OF t d i1 this]
    have "props self' ! i = props self1 ! i" by simp
    then show ?thesis
      using step dat True Cons.prems(4) by (auto split: if_splits)
  next
    case False
    then have pb: "pb \<in> set rest" using Cons.prems(5) by simp
    then have "p_name pb \<noteq> p_name q" using Cons.prems(3) by (intro distinct_map_head)
    then have ne: "p_name (props self ! i) \<noteq> p_name q" using Cons.prems(6) by simp
    have o: "props self1 ! i = props self ! i" "i < length (props self1)"
      using merge_prop_other [OF s Cons.prems(2,4) ne] by simp_all
    have "if r then \<exists>d. prop_data pb = Some d \<and> props self' ! i = set_data (props self1 ! i) d
         else props self' ! i = props self1 ! i"
      using t d Cons.prems(3) o(2) pb Cons.prems(6,7)
      by (intro Cons.IH) (simp_all add: o(1))
    then show ?thesis unfolding o(1) .
  qed
qed

lemma merge_props_absent:
  assumes "merge_props r self rest = Inr self'" "distinct (map p_name (props self))"
    "distinct (map p_name rest)" "q \<in> set rest" "p_name q \<notin> set (map p_name (props self))"
  shows "\<exists>c j. prop_copy q = Inr c \<and> length (props self) \<le> j \<and> j < length (props self')
       \<and> props self' ! j = c"
  using assms
proof (induction rest arbitrary: self)
  case Nil
  then show ?case by simp
next
  case (Cons x rest)
  from Cons.prems(1) obtain self1 where
    s: "merge_prop r self x = Inr self1" and t: "merge_props r self1 rest = Inr self'"
    by (auto split: sum.splits)
  have d: "distinct (map p_name (props self1))"
    using s Cons.prems(2) by (rule merge_prop_distinct)
  have names: "map p_name (props self1) =
     (if p_name x \<in> set (map p_name (props self)) then map p_name (props self)
      else map p_name (props self) @ [p_name x])"
    using s Cons.prems(2) by (rule merge_prop_names)
  have len: "length (props self) \<le> length (props self1)"
    using arg_cong [OF names, of length] by (auto split: if_splits)
  show ?case
  proof (cases "x = q")
    case True
    from merge_prop_absent [OF s] True Cons.prems(5) obtain c where
      c: "prop_copy q = Inr c" "props self1 = props self @ [c]" by auto
    let ?j = "length (props self)"
    have j1: "?j < length (props self1)" and v: "props self1 ! ?j = c" using c(2) by simp_all
    have "p_name c = p_name q" using c(1) by (rule prop_copy_name)
    then have "p_name (props self1 ! ?j) \<notin> set (map p_name rest)"
      using Cons.prems(3) True v by auto
    from merge_props_keep [OF t d j1 this] v c(1) show ?thesis by auto
  next
    case False
    then have q: "q \<in> set rest" using Cons.prems(4) by simp
    then have "p_name q \<noteq> p_name x" using Cons.prems(3) by (intro distinct_map_head)
    then have "p_name q \<notin> set (map p_name (props self1))"
      using names Cons.prems(5) by (auto split: if_splits)
    with t d q Cons.prems(3) have
      "\<exists>c j. prop_copy q = Inr c \<and> length (props self1) \<le> j \<and> j < length (props self')
         \<and> props self' ! j = c"
      by (intro Cons.IH) simp_all
    then obtain c j where cj: "prop_copy q = Inr c" "length (props self1) \<le> j"
      "j < length (props self')" "props self' ! j = c" by blast
    from cj(2) len have "length (props self) \<le> j" by simp
    with cj show ?thesis by blast
  qed
qed

lemma merge_props_of:
  assumes "merge r A B = Inr A'"
  shows "\<exists>self1. merge_props r A (props B) = Inr self1 \<and> props A' = props self1"
  using assms by (cases B) (auto split: sum.splits)

text \<open>
  When a round of the property loop of \<^verbatim>\<open>merge\<close> ends with an exception: the copy of
  a property that \<open>self\<close> lacks fails, or \<open>replace\<close> is true and the property, not
  equal to the one \<open>self\<close> has of that name, has no \<^verbatim>\<open>data\<close> (a \<^verbatim>\<open>Property\<close> without
  value).
\<close>

lemma merge_prop_raises_iff:
  "merge_prop replace self q = Inl e \<longleftrightarrow>
     (get_property_index (props self) (p_name q) = None \<and> prop_copy q = Inl e)
     \<or> (get_property_index (props self) (p_name q) \<noteq> None
         \<and> \<not> contains prop_op_eq q (props self) \<and> replace \<and> prop_data q = None
         \<and> e = AttributeError)"
proof (cases "get_property_index (props self) (p_name q)")
  case None
  show ?thesis
  proof (cases "prop_copy q")
    case (Inl x)
    then show ?thesis using None by (simp add: merge_prop_def)
  next
    case (Inr c)
    have "p_name c = p_name q" using Inr by (rule prop_copy_name)
    then have "get_property (props self) (p_name c) = None"
      using None by (simp add: get_property_None get_property_index_None)
    then show ?thesis using None Inr by (simp add: merge_prop_def append_property_def)
  qed
next
  case (Some index)
  then show ?thesis by (auto simp: merge_prop_def split: option.splits)
qed

text \<open>
  What the claim on the properties in \<^verbatim>\<open>merge\<close> says holds for every call that ends
  without exception. Let \<open>A\<close> and \<open>B\<close> be nodes whose properties have names unique
  within each node, and let \<^verbatim>\<open>A.merge(B, replace)\<close> end without exception, leaving
  \<open>A'\<close>.

  First part: when the property of \<open>A\<close> at index \<open>i\<close> and a property \<open>pb\<close> of \<open>B\<close>
  have the same name and are not equal, then with \<open>replace\<close> true \<open>pb\<close> has a payload
  \<open>d\<close> and the property of \<open>A'\<close> at index \<open>i\<close> is the one of \<open>A\<close> with its \<^verbatim>\<open>data\<close>
  set to \<open>d\<close> (same name, same class, same word size: nothing is validated again);
  with \<open>replace\<close> false it is the one of \<open>A\<close>, unchanged.

  Second part: a property \<open>q\<close> of \<open>B\<close> whose name no property of \<open>A\<close> has is in
  \<open>A'\<close> as its copy \<^verbatim>\<open>q.copy()\<close>, after the properties \<open>A\<close> had.
\<close>

lemma merge_properties:
  assumes "merge replace A B = Inr A'"
    and "distinct (map p_name (props A))" and "distinct (map p_name (props B))"
  shows "(i < length (props A) \<and> pb \<in> set (props B) \<and> p_name pb = p_name (props A ! i)
          \<and> \<not> prop_op_eq (props A ! i) pb
        \<longrightarrow> (if replace
             then \<exists>d. prop_data pb = Some d \<and> props A' ! i = set_data (props A ! i) d
             else props A' ! i = props A ! i))
     \<and> (q \<in> set (props B) \<and> p_name q \<notin> set (map p_name (props A))
        \<longrightarrow> (\<exists>c j. prop_copy q = Inr c \<and> length (props A) \<le> j \<and> j < length (props A')
               \<and> props A' ! j = c))"
proof -
  from merge_props_of [OF assms(1)] obtain self1 where
    m: "merge_props replace A (props B) = Inr self1" and p: "props A' = props self1" by auto
  show ?thesis
  proof (intro conjI impI)
    assume "i < length (props A) \<and> pb \<in> set (props B) \<and> p_name pb = p_name (props A ! i)
          \<and> \<not> prop_op_eq (props A ! i) pb"
    then show "if replace
             then \<exists>d. prop_data pb = Some d \<and> props A' ! i = set_data (props A ! i) d
             else props A' ! i = props A ! i"
      unfolding p using merge_props_conflict [OF m assms(2,3), of i pb] by simp
  next
    assume "q \<in> set (props B) \<and> p_name q \<notin> set (map p_name (props A))"
    then show "\<exists>c j. prop_copy q = Inr c \<and> length (props A) \<le> j \<and> j < length (props A')
               \<and> props A' ! j = c"
      unfolding p using merge_props_absent [OF m assms(2,3), of q] by simp
  qed
qed

text \<open>
  The lemma at the two example nodes: \<open>A\<close> holds \<open>p = <1>\<close>, \<open>B\<close> holds
  \<open>p = <2>\<close> and the string list \<open>q\<close>. With \<open>replace\<close> true \<open>A\<close> ends with
  \<open>p = <2>\<close>, with \<open>replace\<close> false with \<open>p = <1>\<close>, and in both with a copy
  of \<open>q\<close>.
\<close>

lemma merge_properties_example:
  "merge True node_A node_B =
     Inr (Node ''soc''
           [PropWords ''p'' (PList [VInt 2]) 32, PropStrings ''q'' (PList [VStr ''ok''])]
           [Node ''bus'' [Property ''ranges'' None] []])
   \<and> merge False node_A node_B =
     Inr (Node ''soc''
           [PropWords ''p'' (PList [VInt 1]) 32, PropStrings ''q'' (PList [VStr ''ok''])]
           [Node ''bus'' [Property ''ranges'' None] []])
   \<and> set_data (props node_A ! 0) (PList [VInt 2]) = PropWords ''p'' (PList [VInt 2]) 32
   \<and> prop_copy (PropStrings ''q'' (PList [VStr ''ok''])) = Inr (PropStrings ''q'' (PList [VStr ''ok'']))"
proof -
  let ?T = "Node ''soc''
           [PropWords ''p'' (PList [VInt 2]) 32, PropStrings ''q'' (PList [VStr ''ok''])]
           [Node ''bus'' [Property ''ranges'' None] []]"
  let ?F = "Node ''soc''
           [PropWords ''p'' (PList [VInt 1]) 32, PropStrings ''q'' (PList [VStr ''ok''])]
           [Node ''bus'' [Property ''ranges'' None] []]"
  have t: "merge True node_A node_B = Inr ?T" by code_simp
  have f: "merge False node_A node_B = Inr ?F" by code_simp
  have dA: "distinct (map p_name (props node_A))" by code_simp
  have dB: "distinct (map p_name (props node_B))" by code_simp
  have c: "prop_copy (PropStrings ''q'' (PList [VStr ''ok''])) = Inr (PropStrings ''q'' (PList [VStr ''ok'']))"
    by code_simp
  have ne: "\<not> prop_op_eq (props node_A ! 0) (PropWords ''p'' (PList [VInt 2]) 32)"
    by code_simp
  have "set_data (props node_A ! 0) (PList [VInt 2]) = PropWords ''p'' (PList [VInt 2]) 32"
    using merge_properties [OF t dA dB, of 0 "PropWords ''p'' (PList [VInt 2]) 32"] ne
    by (simp add: node_A_def node_B_def)
  with t f c show ?thesis by simp
qed

text \<open>
  Claim C4: for nodes \<open>A\<close> and \<open>B\<close> that both hold a property \<open>p\<close> with unequal
  values, \<^verbatim>\<open>A.merge(B, replace=True)\<close> leaves the property \<open>p\<close> of \<open>A\<close> holding a copy
  of the payload of the one of \<open>B\<close>. The code misses a case. The round of the property
  loop for a name that \<open>self\<close> lacks calls \<^verbatim>\<open>prop.copy()\<close>, which every class of
  properties has; the round that replaces reads \<^verbatim>\<open>prop.data\<close>, which a \<^verbatim>\<open>Property\<close>
  without value has not.

  At the nodes \<open>node_Ax\<close> and \<open>node_Bx\<close>: both hold a property \<open>p\<close>, \<open>p = <1>\<close> in
  \<open>A\<close> and \<open>p = <2>\<close> in \<open>B\<close>, and names are unique in each. The first property of
  \<open>B\<close> is \<open>x\<close> without value, and \<open>A\<close> holds a word list \<open>x\<close>; the two are not
  equal, so with \<open>replace\<close> true the round for \<open>x\<close> ends the call with AttributeError,
  before the round for \<open>p\<close>. On node values the result of the call is the exception; on
  the store the call leaves every object as it was: \<open>A\<close> still holds \<open>p = <1>\<close>, not a
  copy of \<open>p = <2>\<close>.
\<close>

theorem merge_raises_before_p:
  "get_property (props node_Ax) ''p'' = Some (PropWords ''p'' (PList [VInt 1]) 32)
   \<and> get_property (props node_Bx) ''p'' = Some (PropWords ''p'' (PList [VInt 2]) 32)
   \<and> prop_op_eq (PropWords ''p'' (PList [VInt 1]) 32) (PropWords ''p'' (PList [VInt 2]) 32) = False
   \<and> distinct (map p_name (props node_Ax)) \<and> distinct (map p_name (props node_Bx))
   \<and> merge True node_Ax node_Bx = Inl AttributeError
   \<and> Node_merge 1 True raise_heap 0 1 = Some (raise_heap, Some AttributeError)
   \<and> pval (pstore raise_heap ! 1) = PropWords ''p'' (PList [VInt 1]) 32
   \<and> pval (pstore raise_heap ! 3) = PropWords ''p'' (PList [VInt 2]) 32"
proof -
  have 1: "get_property (props node_Ax) ''p'' = Some (PropWords ''p'' (PList [VInt 1]) 32)"
    by code_simp
  have 2: "get_property (props node_Bx) ''p'' = Some (PropWords ''p'' (PList [VInt 2]) 32)"
    by code_simp
  have 3: "prop_op_eq (PropWords ''p'' (PList [VInt 1]) 32) (PropWords ''p'' (PList [VInt 2]) 32) = False"
    by code_simp
  have 4: "distinct (map p_name (props node_Ax))" "distinct (map p_name (props node_Bx))"
    by code_simp+
  have 5: "merge True node_Ax node_Bx = Inl AttributeError" by code_simp
  have 6: "Node_merge 1 True raise_heap 0 1 = Some (raise_heap, Some AttributeError)" by code_simp
  have 7: "pval (pstore raise_heap ! 1) = PropWords ''p'' (PList [VInt 1]) 32"
    "pval (pstore raise_heap ! 3) = PropWords ''p'' (PList [VInt 2]) 32" by code_simp+
  from 1 2 3 4 5 6 7 show ?thesis by simp
qed

section \<open>Paths\<close>

lemma path_loop_chain:
  "is_chain h par qs \<Longrightarrow>
     path_loop h par acc = Some (acc @ map (\<lambda>q. nname (nstore h ! q)) qs)"
proof (induction qs arbitrary: par acc)
  case Nil
  then show ?case
    by (subst path_loop.simps) (auto split: option.splits)
next
  case (Cons q qs)
  then have par: "par = Some q" and q: "q < length (nstore h)" "nname (nstore h ! q) \<noteq> ''/''"
    and rest: "is_chain h (nparent (nstore h ! q)) qs"
    by simp_all
  have "path_loop h par acc =
      path_loop h (nparent (nstore h ! q)) (acc @ [nname (nstore h ! q)])"
    by (subst path_loop.simps) (simp add: par q)
  also have "\<dots> = Some ((acc @ [nname (nstore h ! q)]) @ map (\<lambda>q. nname (nstore h ! q)) qs)"
    using rest by (rule Cons.IH)
  finally show ?case by simp
qed

text \<open>
  Claim C2, as the code has it. The loop of \<^verbatim>\<open>path\<close> starts at the parent of the
  item, not at the item. For every item whose chain of parents is \<open>qs\<close> (the parent
  first, up to the node below the root \<open>/\<close> or to a node without parent), the path is
  \<open>/\<close> followed by the names of \<open>qs\<close>, the topmost first, joined by \<open>/\<close>: the path
  of the place the item is in, without the item's own name. For an item without parent
  or right below the root it is \<open>/\<close>.
\<close>

theorem path_is_parent_path:
  "is_chain h (item_parent h item) qs \<longrightarrow>
     BaseItem_path h item = Some (''/'' @ join ''/'' (rev (map (\<lambda>q. nname (nstore h ! q)) qs)))"
  by (simp add: BaseItem_path_def path_loop_chain)

text \<open>
  The theorem in the example store: the node \<open>leaf\<close> below \<open>/soc/bus\<close> has the path
  \<open>/soc/bus\<close>, the root has the path \<open>/\<close>, and the property \<open>reg\<close> of \<open>leaf\<close> has
  the path \<open>/soc/bus/leaf\<close>.
\<close>

theorem path_is_parent_path_witness:
  "BaseItem_path path_heap (NodeRef 3) = Some ''/soc/bus''
   \<and> BaseItem_path path_heap (NodeRef 0) = Some ''/''
   \<and> BaseItem_path path_heap (PropRef 0) = Some ''/soc/bus/leaf''"
proof -
  have 1: "is_chain path_heap (item_parent path_heap (NodeRef 3)) [2, 1]" by code_simp
  have 2: "is_chain path_heap (item_parent path_heap (NodeRef 0)) []" by code_simp
  have 3: "is_chain path_heap (item_parent path_heap (PropRef 0)) [3, 2, 1]" by code_simp
  have n: "map (\<lambda>q. nname (nstore path_heap ! q)) [3, 2, 1] = [''leaf'', ''bus'', ''soc'']"
    by code_simp
  show ?thesis
    using path_is_parent_path [of path_heap "NodeRef 3" "[2, 1]"]
      path_is_parent_path [of path_heap "NodeRef 0" "[]"]
      path_is_parent_path [of path_heap "PropRef 0" "[3, 2, 1]"] 1 2 3 n
    by simp
qed

text \<open>
  Claim C2 as it is written says that the node \<open>leaf\<close> under \<open>/soc/bus\<close> reports
  \<open>/soc/bus/leaf\<close>. In the example store the node named \<open>leaf\<close>, three levels below
  the root, reports \<open>/soc/bus\<close>.
\<close>

theorem path_excludes_own_name:
  "item_name path_heap (NodeRef 3) = ''leaf''
   \<and> BaseItem_path path_heap (NodeRef 2) = Some ''/soc''
   \<and> BaseItem_path path_heap (NodeRef 3) = Some ''/soc/bus''
   \<and> BaseItem_path path_heap (NodeRef 3) \<noteq> Some ''/soc/bus/leaf''"
  by code_simp

section \<open>Append\<close>

lemma find_prop_Some:
  "p \<in> set ps \<Longrightarrow> p_name (pval (pstore h ! p)) = name \<Longrightarrow> find_prop h ps name \<noteq> None"
  by (induction ps) auto

lemma find_node_Some:
  "c \<in> set ns \<Longrightarrow> nname (nstore h ! c) = name \<Longrightarrow> find_node h ns name \<noteq> None"
  by (induction ns) auto

text \<open>
  Claim C6. When the node \<open>n\<close> has a property \<open>p\<close> with the name of the property
  \<open>x\<close>, \<^verbatim>\<open>n.append(x)\<close> ends with \<open>DuplicateName\<close> and the store is the one before the
  call: no list and no parent has changed. The same holds for a node \<open>x\<close> when \<open>n\<close>
  has a child \<open>c\<close> with the name of \<open>x\<close>.
\<close>

theorem append_duplicate_rejected:
  "(p \<in> set (nprops (nstore h ! n)) \<and> item_name h (PropRef p) = item_name h (PropRef x)
      \<longrightarrow> Node_append h n (PropRef x) = (h, Some DuplicateName))
   \<and> (c \<in> set (nnodes (nstore h ! n)) \<and> item_name h (NodeRef c) = item_name h (NodeRef x)
      \<longrightarrow> Node_append h n (NodeRef x) = (h, Some DuplicateName))"
  using find_prop_Some [of p "nprops (nstore h ! n)" h "item_name h (PropRef x)"]
    find_node_Some [of c "nnodes (nstore h ! n)" h "item_name h (NodeRef x)"]
  by (auto simp: Node_get_property_def Node_get_subnode_def)

text \<open>
  The theorem in the example store: the node \<open>overlay\<close> refuses the property \<open>q\<close> and
  the node \<open>bus\<close>, which it has already.
\<close>

theorem append_duplicate_rejected_witness:
  "Node_append merge_heap 3 (PropRef 1) = (merge_heap, Some DuplicateName)
   \<and> Node_append merge_heap 3 (NodeRef 4) = (merge_heap, Some DuplicateName)"
proof -
  have 1: "1 \<in> set (nprops (nstore merge_heap ! 3))" by code_simp
  have 2: "4 \<in> set (nnodes (nstore merge_heap ! 3))" by code_simp
  show ?thesis
    using 1 2 append_duplicate_rejected [of 1 merge_heap 3 1 4]
      append_duplicate_rejected [of 1 merge_heap 3 4 4]
    by simp
qed

section \<open>Deep copies\<close>

lemma set_add_refs: "set (add_refs acc new) = set acc \<union> set new"
  by (induction new arbitrary: acc) auto

lemma distinct_add_refs: "distinct acc \<Longrightarrow> distinct (add_refs acc new)"
  by (induction new arbitrary: acc) auto




lemma reach_step_set:
  "set (reach_step h acc) = set acc \<union> (\<Union>a\<in>set acc. set (node_refs h a))"
  by (simp add: reach_step_def set_add_refs)

lemma reach_step_distinct: "distinct acc \<Longrightarrow> distinct (reach_step h acc)"
  by (simp add: reach_step_def distinct_add_refs)





lemma reach_iter_distinct: "distinct (((reach_step h) ^^ k) [x])"
  by (induction k) (simp_all add: reach_step_distinct)

lemma node_refs_valid:
  assumes "wf_heap h" and "a < length (nstore h)"
  shows "set (node_refs h a) \<subseteq> {..<length (nstore h)}"
proof -
  have n: "nstore h ! a \<in> set (nstore h)" using assms(2) by simp
  have par: "set (opt_list (nparent (nstore h ! a))) \<subseteq> {..<length (nstore h)}"
    using assms(1) n by (cases "nparent (nstore h ! a)") (auto simp: wf_heap_def)
  have kids: "set (nnodes (nstore h ! a)) \<subseteq> {..<length (nstore h)}"
    using assms(1) n by (auto simp: wf_heap_def)
  have pp: "set (opt_list (pparent (pstore h ! p))) \<subseteq> {..<length (nstore h)}"
    if "p \<in> set (nprops (nstore h ! a))" for p
  proof -
    have "p < length (pstore h)" using assms(1) n that by (auto simp: wf_heap_def)
    then have "pstore h ! p \<in> set (pstore h)" by simp
    then show ?thesis
      using assms(1) by (cases "pparent (pstore h ! p)") (auto simp: wf_heap_def)
  qed
  show ?thesis
    using par kids pp by (auto simp: node_refs_def)
qed

lemma reach_iter_valid:
  assumes "wf_heap h" and "x < length (nstore h)"
  shows "set (((reach_step h) ^^ k) [x]) \<subseteq> {..<length (nstore h)}"
proof (induction k)
  case 0
  show ?case using assms(2) by simp
next
  case (Suc k)
  let ?S = "((reach_step h) ^^ k) [x]"
  have "set (node_refs h a) \<subseteq> {..<length (nstore h)}" if "a \<in> set ?S" for a
    using that Suc node_refs_valid [OF assms(1), of a] by auto
  then have "(\<Union>a\<in>set ?S. set (node_refs h a)) \<subseteq> {..<length (nstore h)}" by blast
  with Suc have "set (reach_step h ?S) \<subseteq> {..<length (nstore h)}"
    by (simp only: reach_step_set Un_subset_iff)
  then show ?case by simp
qed




lemma reachable_distinct: "distinct (reachable h x)"
  unfolding reachable_def by (rule reach_iter_distinct)

lemma reachable_valid:
  "wf_heap h \<Longrightarrow> x < length (nstore h) \<Longrightarrow> set (reachable h x) \<subseteq> {..<length (nstore h)}"
  unfolding reachable_def by (rule reach_iter_valid)



lemma index_of_head [simp]: "index_of (x # ys) x = 0"
  by simp

lemma deepcopy_eq:
  "deepcopy h x =
     (Heap (pstore h @ map (copy_prop h (ren_node h x)) (copied_props h x))
        (nstore h @ map (copy_node h (ren_node h x) (ren_prop h x)) (reachable h x)),
      length (nstore h))"
  unfolding deepcopy_def Let_def copy_node_def copy_prop_def copied_props_def
    ren_node_def ren_prop_def
  by (rule refl)



lemma ren_node_ge: "length (nstore h) \<le> ren_node h x a"
  by (simp add: ren_node_def)




lemma pstore_deepcopy_old:
  "p < length (pstore h) \<Longrightarrow> pstore (fst (deepcopy h x)) ! p = pstore h ! p"
  by (simp add: deepcopy_eq nth_append)


lemma nstore_deepcopy_fresh:
  assumes "length (nstore h) \<le> a" "a < length (nstore (fst (deepcopy h x)))"
  shows "\<exists>b \<in> set (reachable h x). nstore (fst (deepcopy h x)) ! a
           = copy_node h (ren_node h x) (ren_prop h x) b"
proof -
  let ?i = "a - length (nstore h)"
  have i: "?i < length (reachable h x)" using assms by (simp add: deepcopy_eq)
  have "nstore (fst (deepcopy h x)) ! a
      = copy_node h (ren_node h x) (ren_prop h x) (reachable h x ! ?i)"
    using assms i by (simp add: deepcopy_eq nth_append)
  moreover have "reachable h x ! ?i \<in> set (reachable h x)" using i by simp
  ultimately show ?thesis by blast
qed







section \<open>What merge attaches\<close>

lemma attach_node_copy_eq:
  "attach_node_copy h self sub =
     upd_node (fst (deepcopy h sub)) self
       (\<lambda>x. NObj (nname x) (nparent x) (nprops x) (nnodes x @ [length (nstore h)]))"
  by (simp add: attach_node_copy_def deepcopy_eq)

lemma nstore_upd_node: "nstore (upd_node g s f) = (nstore g)[s := f (nstore g ! s)]"
  by (simp add: upd_node_def)


lemma length_nstore_deepcopy:
  "length (nstore (fst (deepcopy h x))) = length (nstore h) + length (reachable h x)"
  by (simp add: deepcopy_eq)


lemma attach_other:
  "a \<noteq> self \<Longrightarrow> nstore (attach_node_copy h self sub) ! a = nstore (fst (deepcopy h sub)) ! a"
  by (simp add: attach_node_copy_eq nstore_upd_node)

lemma length_nstore_attach:
  "length (nstore (attach_node_copy h self sub)) = length (nstore h) + length (reachable h sub)"
  by (simp add: attach_node_copy_eq nstore_upd_node length_nstore_deepcopy)


lemma attach_fresh:
  assumes "self < length (nstore h)" and "length (nstore h) \<le> a"
    and "a < length (nstore (attach_node_copy h self sub))"
  shows "\<exists>b \<in> set (reachable h sub).
     nstore (attach_node_copy h self sub) ! a = copy_node h (ren_node h sub) (ren_prop h sub) b"
proof -
  have "a \<noteq> self" using assms(1,2) by simp
  moreover have "a < length (nstore (fst (deepcopy h sub)))"
    using assms(3) by (simp add: length_nstore_attach length_nstore_deepcopy)
  ultimately show ?thesis
    using nstore_deepcopy_fresh [OF assms(2)] by (simp add: attach_other)
qed

lemma nparent_copy_node:
  "nparent (copy_node h rn rp b) = map_option rn (nparent (nstore h ! b))"
  by (simp add: copy_node_def)


lemma ancestor_of_fresh:
  assumes self: "self < length (nstore h)"
    and anc: "ancestor (attach_node_copy h self sub) a q" and a: "length (nstore h) \<le> a"
  shows "length (nstore h) \<le> q"
  using anc a
proof (induction rule: ancestor.induct)
  case (parent a q)
  from attach_fresh [OF self parent.prems parent.hyps(1)] obtain b where
    "nstore (attach_node_copy h self sub) ! a = copy_node h (ren_node h sub) (ren_prop h sub) b"
    by blast
  with parent.hyps(2) have "map_option (ren_node h sub) (nparent (nstore h ! b)) = Some q"
    by (simp add: nparent_copy_node)
  then show ?case using ren_node_ge [of h sub] by auto
next
  case (step a p q)
  have p: "length (nstore h) \<le> p" using step.IH step.prems by simp
  from attach_fresh [OF self p step.hyps(2)] obtain b where
    "nstore (attach_node_copy h self sub) ! p = copy_node h (ren_node h sub) (ren_prop h sub) b"
    by blast
  with step.hyps(3) have "map_option (ren_node h sub) (nparent (nstore h ! b)) = Some q"
    by (simp add: nparent_copy_node)
  then show ?case using ren_node_ge [of h sub] by auto
qed





















































end
